theory Spec2Isabelle
  imports
    Main
    "HOL-Library.Sublist"
    "HOL-Library.Char_ord"
    "HOL-Library.List_Lexorder"
    "HOL-Library.FSet"
    "HOL-Library.AList"
    "HOL-Library.Multiset"
begin

section \<open>Strings and JSON values\<close>

text \<open>
  A Python \<^verbatim>\<open>str\<close> is a \<^typ>\<open>string\<close>; a \<^typ>\<open>char\<close> stands for the code point
  of the same number (0 to 255). On these code points the order of \<^verbatim>\<open>Char_ord\<close> and
  \<^verbatim>\<open>List_Lexorder\<close> is Python's string order, \<open>length\<close> is \<^verbatim>\<open>len\<close>, \<open>sublist\<close> is the
  \<^verbatim>\<open>in\<close> of two strings and \<open>suffix\<close> is \<^verbatim>\<open>endswith\<close>.
\<close>

definition MANAGED_MARKER :: string where
  "MANAGED_MARKER = ''managed-by=ddns-traefik-sync''"

text \<open>\<^verbatim>\<open>str.isspace\<close> on one code point below 256: tab to carriage return, the four
  separators 28 to 31, space, NEL (133) and the no-break space (160).\<close>

definition isspace :: "char \<Rightarrow> bool" where
  "isspace c = (of_char c \<in> set [9, 10, 11, 12, 13, 28, 29, 30, 31, 32, 133, 160 :: nat])"

text \<open>\<^verbatim>\<open>str.strip()\<close>: whitespace is removed at both ends.\<close>

definition strip :: "string \<Rightarrow> string" where
  "strip s = rev (dropWhile isspace (rev (dropWhile isspace s)))"

text \<open>\<^verbatim>\<open>str.lower()\<close>: the upper-case letters below 256 are A to Z and 192 to 222
  without the multiplication sign 215; each has its lower-case letter 32 places up.\<close>

definition lower_char :: "char \<Rightarrow> char" where
  "lower_char c =
     (let n = of_char c :: nat
      in if (65 \<le> n \<and> n \<le> 90) \<or> (192 \<le> n \<and> n \<le> 214) \<or> (216 \<le> n \<and> n \<le> 222)
         then char_of (n + 32) else c)"

definition lower :: "string \<Rightarrow> string" where
  "lower s = map lower_char s"

text \<open>The values of a decoded JSON object that the engine reads: \<^verbatim>\<open>None\<close>, booleans,
  integers and strings. A record or a zone is a \<^verbatim>\<open>dict[str, Any]\<close>.\<close>

datatype jval = JNone | JBool bool | JInt int | JStr string

type_synonym jdict = "string \<rightharpoonup> jval"

text \<open>\<^verbatim>\<open>d.get(key, default)\<close>.\<close>

definition get :: "jdict \<Rightarrow> string \<Rightarrow> jval \<Rightarrow> jval" where
  "get d key dflt = (case d key of None \<Rightarrow> dflt | Some v \<Rightarrow> v)"

fun digits :: "nat \<Rightarrow> string" where
  "digits n = (if n < 10 then [char_of (48 + n)] else digits (n div 10) @ [char_of (48 + n mod 10)])"

text \<open>\<^verbatim>\<open>str(v)\<close> and \<^verbatim>\<open>bool(v)\<close>.\<close>

fun py_str :: "jval \<Rightarrow> string" where
  "py_str JNone = ''None''"
| "py_str (JBool b) = (if b then ''True'' else ''False'')"
| "py_str (JInt i) = (if i < 0 then ''-'' @ digits (nat (- i)) else digits (nat i))"
| "py_str (JStr s) = s"

fun truthy :: "jval \<Rightarrow> bool" where
  "truthy JNone = False"
| "truthy (JBool b) = b"
| "truthy (JInt i) = (i \<noteq> 0)"
| "truthy (JStr s) = (s \<noteq> [])"

text \<open>The exceptions that occur, each with its message; \<^verbatim>\<open>KeyError\<close> with the key and
  \<^verbatim>\<open>AttributeError\<close> with the attribute that is missing.\<close>

datatype exn =
    CloudflareAPIError string
  | RequestException string
  | HTTPError string
  | AddressValueError string
  | KeyError string
  | AttributeError string
  | IndexError string
  | RuntimeError string

text \<open>\<^verbatim>\<open>x or ""\<close> for \<^verbatim>\<open>x: str | None\<close>.\<close>

definition or_empty :: "string option \<Rightarrow> string" where
  "or_empty c = (case c of None \<Rightarrow> [] | Some s \<Rightarrow> s)"

section \<open>The marker composer (sync\_engine.py, \_compose\_comment)\<close>

definition compose_comment :: "string option \<Rightarrow> string" where
  "compose_comment existing_comment =
     (let current = strip (or_empty existing_comment)
      in if current = [] then MANAGED_MARKER
         else if sublist MANAGED_MARKER current then current
         else current @ '' | '' @ MANAGED_MARKER)"

text \<open>How often a string occurs in another one, counted by starting position.\<close>

fun occurrences :: "string \<Rightarrow> string \<Rightarrow> nat" where
  "occurrences m [] = (if m = [] then 1 else 0)"
| "occurrences m (x # xs) = (if prefix m (x # xs) then 1 else 0) + occurrences m xs"

section \<open>The zone matcher (cloudflare\_client.py, find\_best\_zone\_match)\<close>

record zone_match =
  zone_id :: string
  zone_name :: string

text \<open>The loop over the zones; \<open>best\<close> is the local variable of that name.\<close>

fun best_zone_loop ::
  "string \<Rightarrow> jdict list \<Rightarrow> (int \<times> zone_match) option \<Rightarrow> (int \<times> zone_match) option" where
  "best_zone_loop domain [] best = best"
| "best_zone_loop domain (zone # zones) best =
     (let zname = lower (py_str (get zone ''name'' (JStr [])));
          zid = py_str (get zone ''id'' (JStr []))
      in if zname = [] \<or> zid = [] then best_zone_loop domain zones best
         else if domain = zname \<or> suffix (''.'' @ zname) domain then
           (let score = int (length zname);
                match = \<lparr>zone_id = zid, zone_name = zname\<rparr>
            in case best of
                 None \<Rightarrow> best_zone_loop domain zones (Some (score, match))
               | Some (best0, _) \<Rightarrow>
                   if score > best0 then best_zone_loop domain zones (Some (score, match))
                   else best_zone_loop domain zones best)
         else best_zone_loop domain zones best)"

definition find_best_zone_match :: "string \<Rightarrow> jdict list \<Rightarrow> zone_match option" where
  "find_best_zone_match domain zones = map_option snd (best_zone_loop domain zones None)"

text \<open>What the loop reads of one zone, and its test of a zone against a hostname: the
  guard on the two strings and the comparison.\<close>

definition zone_key :: "jdict \<Rightarrow> string" where
  "zone_key zone = lower (py_str (get zone ''name'' (JStr [])))"

definition zone_ident :: "jdict \<Rightarrow> string" where
  "zone_ident zone = py_str (get zone ''id'' (JStr []))"

definition eligible :: "string \<Rightarrow> jdict \<Rightarrow> bool" where
  "eligible domain zone =
     (\<not> (zone_key zone = [] \<or> zone_ident zone = [])
      \<and> (domain = zone_key zone \<or> suffix (''.'' @ zone_key zone) domain))"

section \<open>The provider client as the engine sees it\<close>

text \<open>
  \<^verbatim>\<open>sync_domains\<close> receives the client as an argument and calls five of its methods,
  each of which ends in an HTTP request. They are the fields of a record here, working
  on a provider state \<open>'s\<close>: a listing returns the records or raises, a mutation returns
  (its result is never read) or raises, and each may change the state.
  \<^verbatim>\<open>find_best_zone_match\<close> is the static method above.
\<close>

record 's cloudflare_client =
  list_zones :: "'s \<Rightarrow> (exn + jdict list) \<times> 's"
  list_a_records :: "string \<Rightarrow> string option \<Rightarrow> 's \<Rightarrow> (exn + jdict list) \<times> 's"
  create_a_record :: "string \<Rightarrow> string \<Rightarrow> string \<Rightarrow> bool \<Rightarrow> string \<Rightarrow> 's \<Rightarrow> exn option \<times> 's"
  update_a_record ::
    "string \<Rightarrow> string \<Rightarrow> string \<Rightarrow> string \<Rightarrow> bool \<Rightarrow> string \<Rightarrow> 's \<Rightarrow> exn option \<times> 's"
  delete_record :: "string \<Rightarrow> string \<Rightarrow> 's \<Rightarrow> exn option \<times> 's"

text \<open>What a run leaves behind: the provider's state, the client calls made, in order,
  and the lines logged.\<close>

datatype call =
    ListZones
  | ListARecords string "string option"
  | CreateARecord string string string bool string
  | UpdateARecord string string string string bool string
  | DeleteRecord string string

datatype log_line = Warning string | Info string

record 's world =
  remote :: 's
  calls :: "call list"
  logs :: "log_line list"

definition logger :: "log_line \<Rightarrow> 's world \<Rightarrow> 's world" where
  "logger l w = w\<lparr>logs := logs w @ [l]\<rparr>"

definition call_list_zones :: "'s cloudflare_client \<Rightarrow> 's world \<Rightarrow> (exn + jdict list) \<times> 's world" where
  "call_list_zones cf w =
     (case list_zones cf (remote w) of
        (r, s) \<Rightarrow> (r, w\<lparr>remote := s, calls := calls w @ [ListZones]\<rparr>))"

definition call_list_a_records ::
  "'s cloudflare_client \<Rightarrow> string \<Rightarrow> string option \<Rightarrow> 's world \<Rightarrow> (exn + jdict list) \<times> 's world" where
  "call_list_a_records cf zid name w =
     (case list_a_records cf zid name (remote w) of
        (r, s) \<Rightarrow> (r, w\<lparr>remote := s, calls := calls w @ [ListARecords zid name]\<rparr>))"

definition call_create_a_record ::
  "'s cloudflare_client \<Rightarrow> string \<Rightarrow> string \<Rightarrow> string \<Rightarrow> bool \<Rightarrow> string \<Rightarrow> 's world
     \<Rightarrow> exn option \<times> 's world" where
  "call_create_a_record cf zid name ip proxied comment w =
     (case create_a_record cf zid name ip proxied comment (remote w) of
        (r, s) \<Rightarrow> (r, w\<lparr>remote := s, calls := calls w @ [CreateARecord zid name ip proxied comment]\<rparr>))"

definition call_update_a_record ::
  "'s cloudflare_client \<Rightarrow> string \<Rightarrow> string \<Rightarrow> string \<Rightarrow> string \<Rightarrow> bool \<Rightarrow> string \<Rightarrow> 's world
     \<Rightarrow> exn option \<times> 's world" where
  "call_update_a_record cf zid rid name ip proxied comment w =
     (case update_a_record cf zid rid name ip proxied comment (remote w) of
        (r, s) \<Rightarrow>
          (r, w\<lparr>remote := s, calls := calls w @ [UpdateARecord zid rid name ip proxied comment]\<rparr>))"

definition call_delete_record ::
  "'s cloudflare_client \<Rightarrow> string \<Rightarrow> string \<Rightarrow> 's world \<Rightarrow> exn option \<times> 's world" where
  "call_delete_record cf zid rid w =
     (case delete_record cf zid rid (remote w) of
        (r, s) \<Rightarrow> (r, w\<lparr>remote := s, calls := calls w @ [DeleteRecord zid rid]\<rparr>))"

section \<open>The reconciliation engine (sync\_engine.py)\<close>

record sync_summary =
  creates :: int
  updates :: int
  noops :: int
  deletes :: int
  skipped :: int

text \<open>\<^verbatim>\<open>_pick_record\<close>: \<^verbatim>\<open>sorted\<close> is stable, as \<open>sort_key\<close> is, and \<^verbatim>\<open>[0]\<close> of an empty
  list raises.\<close>

definition record_key :: "jdict \<Rightarrow> string" where
  "record_key r = py_str (get r ''id'' (JStr []))"

definition pick_record :: "jdict list \<Rightarrow> exn + jdict" where
  "pick_record records =
     (case sort_key record_key records of
        [] \<Rightarrow> Inl (IndexError ''list index out of range'')
      | r # _ \<Rightarrow> Inr r)"

text \<open>
  \<^verbatim>\<open>target.get("comment")\<close> as \<^verbatim>\<open>_compose_comment\<close> and line 77 use it, both through
  \<^verbatim>\<open>(x or "").strip()\<close>: a string is kept, an absent key and every falsy value come out
  as \<^verbatim>\<open>""\<close> just as \<^verbatim>\<open>None\<close> does, and a truthy value that is no string has no
  \<^verbatim>\<open>strip\<close>.
\<close>

definition comment_of :: "jdict \<Rightarrow> exn + string option" where
  "comment_of r =
     (case r ''comment'' of
        None \<Rightarrow> Inr None
      | Some (JStr s) \<Rightarrow> Inr (Some s)
      | Some v \<Rightarrow>
          if truthy v then Inl (AttributeError ''strip'') else Inr None)"

text \<open>The first loop (lines 46 to 52). \<open>d2z\<close> is \<^verbatim>\<open>domain_to_zone\<close>, a dict in insertion
  order.\<close>

fun match_domains ::
  "jdict list \<Rightarrow> string list \<Rightarrow> (string \<times> string \<times> string) list \<Rightarrow> int \<Rightarrow> 's world
     \<Rightarrow> (string \<times> string \<times> string) list \<times> int \<times> 's world" where
  "match_domains zones [] d2z skp w = (d2z, skp, w)"
| "match_domains zones (domain # rest) d2z skp w =
     (case find_best_zone_match domain zones of
        None \<Rightarrow>
          match_domains zones rest d2z (skp + 1)
            (logger (Warning (''Skipping '' @ domain @ '': no matching Cloudflare zone.'')) w)
      | Some m \<Rightarrow>
          match_domains zones rest (AList.update domain (zone_id m, zone_name m) d2z) skp w)"

text \<open>The body of the second loop (lines 55 to 92) for one domain. \<open>c\<close> holds the
  counters; an exception loses them and keeps the world.\<close>

definition sync_record ::
  "'s cloudflare_client \<Rightarrow> string \<Rightarrow> bool \<Rightarrow> bool \<Rightarrow> (string \<times> string \<times> string) list \<Rightarrow> string
     \<Rightarrow> sync_summary \<Rightarrow> 's world \<Rightarrow> (exn + sync_summary) \<times> 's world" where
  "sync_record cf public_ip default_proxied dry_run d2z domain c w =
     (case map_of d2z domain of
        None \<Rightarrow> (Inl (KeyError domain), w)
      | Some (zid, _) \<Rightarrow>
         (case call_list_a_records cf zid (Some domain) w of
            (Inl e, w1) \<Rightarrow> (Inl e, w1)
          | (Inr listed, w1) \<Rightarrow>
             (let records = filter (\<lambda>r. r ''name'' = Some (JStr domain)) listed
              in if records = [] then
                   (let c1 = c\<lparr>creates := creates c + 1\<rparr>;
                        w2 = logger (Info (''Create A record '' @ domain @ '' -> '' @ public_ip)) w1
                    in if \<not> dry_run then
                         (case call_create_a_record cf zid domain public_ip default_proxied
                                 MANAGED_MARKER w2 of
                            (Some e, w3) \<Rightarrow> (Inl e, w3)
                          | (None, w3) \<Rightarrow> (Inr c1, w3))
                       else (Inr c1, w2))
                 else
                   (let w2 = (if length records > 1 then
                                logger (Warning (''Multiple A records found for '' @ domain
                                  @ '', using deterministic first record.'')) w1
                              else w1)
                    in case pick_record records of
                         Inl e \<Rightarrow> (Inl e, w2)
                       | Inr target \<Rightarrow>
                          (let current_ip = py_str (get target ''content'' (JStr []));
                               proxied = truthy (get target ''proxied'' (JBool default_proxied))
                           in case comment_of target of
                                Inl e \<Rightarrow> (Inl e, w2)
                              | Inr existing \<Rightarrow>
                                 (let comment = compose_comment existing
                                  in if current_ip = public_ip \<and> comment = strip (or_empty existing)
                                     then (Inr (c\<lparr>noops := noops c + 1\<rparr>),
                                           logger (Info (''No change for '' @ domain @ '' ('' @ public_ip
                                             @ '')'')) w2)
                                     else
                                       (let c1 = c\<lparr>updates := updates c + 1\<rparr>;
                                            w3 = logger (Info (''Update A record '' @ domain @ '': ''
                                                   @ current_ip @ '' -> '' @ public_ip)) w2
                                        in if \<not> dry_run then
                                             (case target ''id'' of
                                                None \<Rightarrow> (Inl (KeyError ''id''), w3)
                                              | Some i \<Rightarrow>
                                                 (case call_update_a_record cf zid (py_str i) domain
                                                         public_ip proxied comment w3 of
                                                    (Some e, w4) \<Rightarrow> (Inl e, w4)
                                                  | (None, w4) \<Rightarrow> (Inr c1, w4)))
                                           else (Inr c1, w3))))))))"

fun sync_records ::
  "'s cloudflare_client \<Rightarrow> string \<Rightarrow> bool \<Rightarrow> bool \<Rightarrow> (string \<times> string \<times> string) list \<Rightarrow> string list
     \<Rightarrow> sync_summary \<Rightarrow> 's world \<Rightarrow> (exn + sync_summary) \<times> 's world" where
  "sync_records cf public_ip default_proxied dry_run d2z [] c w = (Inr c, w)"
| "sync_records cf public_ip default_proxied dry_run d2z (domain # rest) c w =
     (case sync_record cf public_ip default_proxied dry_run d2z domain c w of
        (Inl e, w1) \<Rightarrow> (Inl e, w1)
      | (Inr c1, w1) \<Rightarrow> sync_records cf public_ip default_proxied dry_run d2z rest c1 w1)"

text \<open>The cleanup (lines 94 to 111): the two tests of the inner loop, the inner loop over
  one zone's records, and the loop over the zones.\<close>

definition stale :: "string fset \<Rightarrow> jdict \<Rightarrow> bool" where
  "stale desired r =
     (let name = lower (py_str (get r ''name'' (JStr [])));
          comment = py_str (get r ''comment'' (JStr []))
      in sublist MANAGED_MARKER comment \<and> name |\<notin>| desired)"

fun prune_records ::
  "'s cloudflare_client \<Rightarrow> string fset \<Rightarrow> bool \<Rightarrow> string \<Rightarrow> jdict list \<Rightarrow> sync_summary \<Rightarrow> 's world
     \<Rightarrow> (exn + sync_summary) \<times> 's world" where
  "prune_records cf desired dry_run zid [] c w = (Inr c, w)"
| "prune_records cf desired dry_run zid (r # rest) c w =
     (let name = lower (py_str (get r ''name'' (JStr [])));
          comment = py_str (get r ''comment'' (JStr []))
      in if \<not> sublist MANAGED_MARKER comment then prune_records cf desired dry_run zid rest c w
         else if name |\<in>| desired then prune_records cf desired dry_run zid rest c w
         else
           (let c1 = c\<lparr>deletes := deletes c + 1\<rparr>;
                w1 = logger (Info (''Delete stale managed A record '' @ name)) w
            in if \<not> dry_run then
                 (case r ''id'' of
                    None \<Rightarrow> (Inl (KeyError ''id''), w1)
                  | Some i \<Rightarrow>
                     (case call_delete_record cf zid (py_str i) w1 of
                        (Some e, w2) \<Rightarrow> (Inl e, w2)
                      | (None, w2) \<Rightarrow> prune_records cf desired dry_run zid rest c1 w2))
               else prune_records cf desired dry_run zid rest c1 w1))"

fun cleanup_zones ::
  "'s cloudflare_client \<Rightarrow> string fset \<Rightarrow> bool \<Rightarrow> jdict list \<Rightarrow> sync_summary \<Rightarrow> 's world
     \<Rightarrow> (exn + sync_summary) \<times> 's world" where
  "cleanup_zones cf desired dry_run [] c w = (Inr c, w)"
| "cleanup_zones cf desired dry_run (zone # rest) c w =
     (let zid = py_str (get zone ''id'' (JStr []))
      in if zid = [] then cleanup_zones cf desired dry_run rest c w
         else
           (case call_list_a_records cf zid None w of
              (Inl e, w1) \<Rightarrow> (Inl e, w1)
            | (Inr a_records, w1) \<Rightarrow>
               (case prune_records cf desired dry_run zid a_records c w1 of
                  (Inl e, w2) \<Rightarrow> (Inl e, w2)
                | (Inr c1, w2) \<Rightarrow> cleanup_zones cf desired dry_run rest c1 w2)))"

definition sync_domains ::
  "string fset \<Rightarrow> string \<Rightarrow> bool \<Rightarrow> bool \<Rightarrow> bool \<Rightarrow> 's cloudflare_client \<Rightarrow> 's world
     \<Rightarrow> (exn + sync_summary) \<times> 's world" where
  "sync_domains domains public_ip default_proxied dry_run cleanup_stale cf w =
     (case call_list_zones cf w of
        (Inl e, w1) \<Rightarrow> (Inl e, w1)
      | (Inr zones, w1) \<Rightarrow>
         (case match_domains zones (sorted_list_of_fset domains) [] 0 w1 of
            (d2z, skp, w2) \<Rightarrow>
              (case sync_records cf public_ip default_proxied dry_run d2z (sort (map fst d2z))
                      \<lparr>creates = 0, updates = 0, noops = 0, deletes = 0, skipped = skp\<rparr> w2 of
                 (Inl e, w3) \<Rightarrow> (Inl e, w3)
               | (Inr c, w3) \<Rightarrow>
                   if cleanup_stale then cleanup_zones cf domains dry_run zones c w3
                   else (Inr c, w3))))"

section \<open>The public-IP resolver (ip\_resolver.py)\<close>

text \<open>
  What the resolver reads of a response: what \<^verbatim>\<open>raise_for_status()\<close> raises, if
  anything, and the body. The session's \<^verbatim>\<open>get\<close> and \<^verbatim>\<open>ipaddress.IPv4Address\<close> are
  arguments: \<open>session_get source timeout\<close> works on a session state and returns a
  response or raises, \<open>ipv4_address value\<close> is what the constructor raises (\<open>None\<close>
  when the value is an IPv4 address).
\<close>

record http_response =
  raise_for_status :: "exn option"
  text_of :: string

record 's net =
  session :: 's
  requested :: "string list"
  warnings :: "log_line list"

text \<open>\<^verbatim>\<open>str(exc)\<close> and \<^verbatim>\<open>sep.join(xs)\<close>.\<close>

fun exn_str :: "exn \<Rightarrow> string" where
  "exn_str (CloudflareAPIError m) = m"
| "exn_str (RequestException m) = m"
| "exn_str (HTTPError m) = m"
| "exn_str (AddressValueError m) = m"
| "exn_str (KeyError k) = [CHR 0x27] @ k @ [CHR 0x27]"
| "exn_str (AttributeError m) = m"
| "exn_str (IndexError m) = m"
| "exn_str (RuntimeError m) = m"

fun join :: "string \<Rightarrow> string list \<Rightarrow> string" where
  "join sep [] = []"
| "join sep [x] = x"
| "join sep (x # y # ys) = x @ sep @ join sep (y # ys)"

text \<open>The body of the \<^verbatim>\<open>try\<close> for one source.\<close>

definition try_source ::
  "(string \<Rightarrow> int \<Rightarrow> 's \<Rightarrow> (exn + http_response) \<times> 's) \<Rightarrow> (string \<Rightarrow> exn option) \<Rightarrow> int \<Rightarrow> string
     \<Rightarrow> 's net \<Rightarrow> (exn + string) \<times> 's net" where
  "try_source session_get ipv4_address timeout_seconds source w =
     (case session_get source timeout_seconds (session w) of
        (r, s) \<Rightarrow>
          (let w1 = w\<lparr>session := s, requested := requested w @ [source]\<rparr>
           in case r of
                Inl exc \<Rightarrow> (Inl exc, w1)
              | Inr response \<Rightarrow>
                 (case raise_for_status response of
                    Some exc \<Rightarrow> (Inl exc, w1)
                  | None \<Rightarrow>
                     (let v = strip (text_of response)
                      in case ipv4_address v of
                           Some exc \<Rightarrow> (Inl exc, w1)
                         | None \<Rightarrow> (Inr v, w1)))))"

fun resolve_loop ::
  "(string \<Rightarrow> int \<Rightarrow> 's \<Rightarrow> (exn + http_response) \<times> 's) \<Rightarrow> (string \<Rightarrow> exn option) \<Rightarrow> int
     \<Rightarrow> string list \<Rightarrow> string list \<Rightarrow> 's net \<Rightarrow> (exn + string) \<times> 's net" where
  "resolve_loop session_get ipv4_address timeout_seconds [] errors w =
     (Inl (RuntimeError (''Unable to resolve public IPv4 from configured sources: ''
        @ join ''; '' errors)), w)"
| "resolve_loop session_get ipv4_address timeout_seconds (source # rest) errors w =
     (case try_source session_get ipv4_address timeout_seconds source w of
        (Inr v, w1) \<Rightarrow> (Inr v, w1)
      | (Inl exc, w1) \<Rightarrow>
          resolve_loop session_get ipv4_address timeout_seconds rest
            (errors @ [source @ '': '' @ exn_str exc])
            (w1\<lparr>warnings := warnings w1
               @ [Warning (''Failed resolving IP from '' @ source @ '': '' @ exn_str exc)]\<rparr>))"

definition resolve_public_ipv4 ::
  "(string \<Rightarrow> int \<Rightarrow> 's \<Rightarrow> (exn + http_response) \<times> 's) \<Rightarrow> (string \<Rightarrow> exn option) \<Rightarrow> string list
     \<Rightarrow> int \<Rightarrow> 's net \<Rightarrow> (exn + string) \<times> 's net" where
  "resolve_public_ipv4 session_get ipv4_address sources timeout_seconds w =
     resolve_loop session_get ipv4_address timeout_seconds sources [] w"

text \<open>Whether a source answers with an address in a given state, and the state it
  leaves: one round of the loop seen from outside.\<close>

definition answers ::
  "(string \<Rightarrow> int \<Rightarrow> 's \<Rightarrow> (exn + http_response) \<times> 's) \<Rightarrow> (string \<Rightarrow> exn option) \<Rightarrow> int \<Rightarrow> string
     \<Rightarrow> 's \<Rightarrow> string option" where
  "answers session_get ipv4_address timeout_seconds source s =
     (case fst (session_get source timeout_seconds s) of
        Inl exc \<Rightarrow> None
      | Inr response \<Rightarrow>
          if raise_for_status response = None \<and> ipv4_address (strip (text_of response)) = None
          then Some (strip (text_of response)) else None)"

text \<open>The outcome the sources give when asked in order from a state, each in the
  state the ones before it left: the first address with its position, if any.\<close>

fun first_answer ::
  "(string \<Rightarrow> int \<Rightarrow> 's \<Rightarrow> (exn + http_response) \<times> 's) \<Rightarrow> (string \<Rightarrow> exn option) \<Rightarrow> int
     \<Rightarrow> string list \<Rightarrow> 's \<Rightarrow> (nat \<times> string) option" where
  "first_answer session_get ipv4_address timeout_seconds [] s = None"
| "first_answer session_get ipv4_address timeout_seconds (source # rest) s =
     (case answers session_get ipv4_address timeout_seconds source s of
        Some v \<Rightarrow> Some (0, v)
      | None \<Rightarrow>
          map_option (\<lambda>(k, v). (Suc k, v))
            (first_answer session_get ipv4_address timeout_seconds rest
               (snd (session_get source timeout_seconds s))))"

section \<open>The doubles of the tests\<close>

text \<open>\<^verbatim>\<open>FakeCloudflare\<close> of tests/test\_sync\_engine.py, its three fixtures as arguments:
  the listings never change, the mutations are written down and succeed.\<close>

record fake_state =
  created :: "(string \<times> string \<times> string \<times> bool \<times> string) list"
  updated :: "(string \<times> string \<times> string \<times> string \<times> bool \<times> string) list"
  deleted :: "(string \<times> string) list"

definition fake_cloudflare ::
  "jdict list \<Rightarrow> (string \<rightharpoonup> jdict list) \<Rightarrow> jdict list \<Rightarrow> fake_state cloudflare_client" where
  "fake_cloudflare zones records_by_name all_zone_records =
     \<lparr>list_zones = (\<lambda>s. (Inr zones, s)),
      list_a_records = (\<lambda>zid name s.
        (Inr (case name of
                None \<Rightarrow> all_zone_records
              | Some n \<Rightarrow>
                  if n \<noteq> [] then (case records_by_name n of None \<Rightarrow> [] | Some rs \<Rightarrow> rs)
                  else all_zone_records), s)),
      create_a_record = (\<lambda>zid name ip proxied comment s.
        (None, s\<lparr>created := created s @ [(zid, name, ip, proxied, comment)]\<rparr>)),
      update_a_record = (\<lambda>zid rid name ip proxied comment s.
        (None, s\<lparr>updated := updated s @ [(zid, rid, name, ip, proxied, comment)]\<rparr>)),
      delete_record = (\<lambda>zid rid s. (None, s\<lparr>deleted := deleted s @ [(zid, rid)]\<rparr>))\<rparr>"

definition fresh :: "fake_state world" where
  "fresh = \<lparr>remote = \<lparr>created = [], updated = [], deleted = []\<rparr>, calls = [], logs = []\<rparr>"

text \<open>\<^verbatim>\<open>_Session\<close> of tests/test\_ip\_resolver.py: the state is its call counter.\<close>

definition test_session_get :: "string \<Rightarrow> int \<Rightarrow> int \<Rightarrow> (exn + http_response) \<times> int" where
  "test_session_get source timeout n =
     (let n1 = n + 1
      in if n1 = 1 then (Inl (RequestException ''network issue''), n1)
         else if n1 = 2 then (Inr \<lparr>raise_for_status = None, text_of = ''not-an-ip''\<rparr>, n1)
         else (Inr \<lparr>raise_for_status = None, text_of = ''203.0.113.10'' @ [CHR 0x0A]\<rparr>, n1))"

text \<open>For the two bodies that this session returns, what \<^verbatim>\<open>ipaddress.IPv4Address\<close>
  does: it accepts 203.0.113.10 and rejects not-an-ip. The stand-in rejects everything
  else as well.\<close>

definition test_ipv4_address :: "string \<Rightarrow> exn option" where
  "test_ipv4_address v =
     (if v = ''203.0.113.10'' then None
      else Some (AddressValueError (''Expected 4 octets in '' @ v)))"

definition test_net :: "int net" where
  "test_net = \<lparr>session = 0, requested = [], warnings = []\<rparr>"

text \<open>The fixtures of tests/test\_sync\_engine.py and tests/test\_cloudflare\_client.py.\<close>

definition test_zone :: jdict where
  "test_zone = [''id'' \<mapsto> JStr ''zone1'', ''name'' \<mapsto> JStr ''example.com'']"

definition rec_exists :: jdict where
  "rec_exists = [''id'' \<mapsto> JStr ''r1'', ''name'' \<mapsto> JStr ''exists.example.com'',
     ''content'' \<mapsto> JStr ''198.51.100.10'', ''proxied'' \<mapsto> JBool True, ''comment'' \<mapsto> JStr []]"

definition rec_same :: jdict where
  "rec_same = [''id'' \<mapsto> JStr ''r2'', ''name'' \<mapsto> JStr ''same.example.com'',
     ''content'' \<mapsto> JStr ''203.0.113.10'', ''proxied'' \<mapsto> JBool False,
     ''comment'' \<mapsto> JStr MANAGED_MARKER]"

definition rec_stale :: jdict where
  "rec_stale = [''id'' \<mapsto> JStr ''r3'', ''name'' \<mapsto> JStr ''stale.example.com'',
     ''comment'' \<mapsto> JStr MANAGED_MARKER]"

definition rec_other :: jdict where
  "rec_other = [''id'' \<mapsto> JStr ''r4'', ''name'' \<mapsto> JStr ''other.example.com'',
     ''comment'' \<mapsto> JStr []]"

definition test_cloudflare :: "fake_state cloudflare_client" where
  "test_cloudflare =
     fake_cloudflare [test_zone]
       [''exists.example.com'' \<mapsto> [rec_exists], ''same.example.com'' \<mapsto> [rec_same]]
       [rec_stale, rec_other]"

definition zone_a :: jdict where
  "zone_a = [''id'' \<mapsto> JStr ''1'', ''name'' \<mapsto> JStr ''example.com'']"

definition zone_b :: jdict where
  "zone_b = [''id'' \<mapsto> JStr ''2'', ''name'' \<mapsto> JStr ''sub.example.com'']"

definition zero_summary :: sync_summary where
  "zero_summary = \<lparr>creates = 0, updates = 0, noops = 0, deletes = 0, skipped = 0\<rparr>"

text \<open>Further inputs, used below: two records of one hostname with the ids of the
  specification, two records without an id that differ in their address, a managed
  record whose comment ends in a space, and a client whose token may read but not
  write.\<close>

definition dup_r1 :: jdict where
  "dup_r1 = [''id'' \<mapsto> JStr ''r1'', ''name'' \<mapsto> JStr ''a.example.com'',
     ''content'' \<mapsto> JStr ''198.51.100.10'', ''proxied'' \<mapsto> JBool True]"

definition dup_r2 :: jdict where
  "dup_r2 = [''id'' \<mapsto> JStr ''r2'', ''name'' \<mapsto> JStr ''a.example.com'',
     ''content'' \<mapsto> JStr ''198.51.100.20'', ''proxied'' \<mapsto> JBool False]"

definition twin_a :: jdict where
  "twin_a = [''name'' \<mapsto> JStr ''a.example.com'', ''content'' \<mapsto> JStr ''198.51.100.10'']"

definition twin_b :: jdict where
  "twin_b = [''name'' \<mapsto> JStr ''a.example.com'', ''content'' \<mapsto> JStr ''198.51.100.20'']"

definition rec_padded :: jdict where
  "rec_padded = [''id'' \<mapsto> JStr ''r5'', ''name'' \<mapsto> JStr ''same.example.com'',
     ''content'' \<mapsto> JStr ''203.0.113.10'', ''proxied'' \<mapsto> JBool False,
     ''comment'' \<mapsto> JStr (MANAGED_MARKER @ '' '')]"

definition read_only_cloudflare :: "fake_state cloudflare_client" where
  "read_only_cloudflare =
     test_cloudflare\<lparr>create_a_record :=
       (\<lambda>zid name ip proxied comment s. (Some (CloudflareAPIError ''403 Forbidden''), s))\<rparr>"

text \<open>
  A client that keeps what it is given, as the double of tests/test\_main\_integration.py
  keeps what it creates: its state is the records of its zone, a lookup returns those of
  the name asked for, a create adds a record, an update rewrites the record of that id
  and a delete removes it.
\<close>

definition stored_record :: "string \<Rightarrow> string \<Rightarrow> string \<Rightarrow> bool \<Rightarrow> string \<Rightarrow> jdict" where
  "stored_record rid name ip proxied comment =
     [''id'' \<mapsto> JStr rid, ''name'' \<mapsto> JStr name, ''content'' \<mapsto> JStr ip,
      ''proxied'' \<mapsto> JBool proxied, ''comment'' \<mapsto> JStr comment]"

definition store_cloudflare :: "jdict list \<Rightarrow> (jdict list) cloudflare_client" where
  "store_cloudflare zones =
     \<lparr>list_zones = (\<lambda>s. (Inr zones, s)),
      list_a_records = (\<lambda>zid name s.
        (Inr (case name of
                None \<Rightarrow> s
              | Some n \<Rightarrow>
                  if n \<noteq> [] then filter (\<lambda>r. r ''name'' = Some (JStr n)) s else s), s)),
      create_a_record = (\<lambda>zid name ip proxied comment s.
        (None, s @ [stored_record (''id-'' @ name) name ip proxied comment])),
      update_a_record = (\<lambda>zid rid name ip proxied comment s.
        (None, map (\<lambda>r. if r ''id'' = Some (JStr rid)
                         then stored_record rid name ip proxied comment else r) s)),
      delete_record = (\<lambda>zid rid s. (None, filter (\<lambda>r. r ''id'' \<noteq> Some (JStr rid)) s))\<rparr>"

definition store_world :: "jdict list \<Rightarrow> (jdict list) world" where
  "store_world records = \<lparr>remote = records, calls = [], logs = []\<rparr>"

text \<open>A client that, once anything was created, answers every lookup with a managed
  record of the name asked for, as a wildcard would.\<close>

definition wildcard_cloudflare :: "bool cloudflare_client" where
  "wildcard_cloudflare =
     \<lparr>list_zones = (\<lambda>s. (Inr [test_zone], s)),
      list_a_records = (\<lambda>zid name s.
        (Inr (case name of
                None \<Rightarrow> []
              | Some n \<Rightarrow>
                  if s then [stored_record ''w'' n ''203.0.113.10'' False MANAGED_MARKER]
                  else []), s)),
      create_a_record = (\<lambda>zid name ip proxied comment s. (None, True)),
      update_a_record = (\<lambda>zid rid name ip proxied comment s. (None, s)),
      delete_record = (\<lambda>zid rid s. (None, s))\<rparr>"

section \<open>Notions used in the statements\<close>

text \<open>Whether the loop of the zone matcher replaces \<open>best\<close> at a zone.\<close>

definition improves :: "string \<Rightarrow> jdict \<Rightarrow> (int \<times> zone_match) option \<Rightarrow> bool" where
  "improves domain zone best =
     (eligible domain zone
      \<and> (case best of None \<Rightarrow> True | Some (b, _) \<Rightarrow> int (length (zone_key zone)) > b))"

text \<open>The calls that change the provider's records.\<close>

fun mutating :: "call \<Rightarrow> bool" where
  "mutating ListZones = False"
| "mutating (ListARecords zid name) = False"
| "mutating (CreateARecord zid name ip proxied comment) = True"
| "mutating (UpdateARecord zid rid name ip proxied comment) = True"
| "mutating (DeleteRecord zid rid) = True"

text \<open>
  What the engine reads of a listing: of a per-hostname lookup the records of exactly that
  name, of a cleanup listing the stale managed records; nothing of a listing that raised.
\<close>

definition seen_for :: "string \<Rightarrow> exn + jdict list \<Rightarrow> jdict list option" where
  "seen_for domain res =
     (case res of
        Inl e \<Rightarrow> None
      | Inr listed \<Rightarrow> Some (filter (\<lambda>r. r ''name'' = Some (JStr domain)) listed))"

definition stale_seen :: "string fset \<Rightarrow> exn + jdict list \<Rightarrow> jdict list option" where
  "stale_seen desired res =
     (case res of Inl e \<Rightarrow> None | Inr listed \<Rightarrow> Some (filter (stale desired) listed))"

text \<open>
  The run with the dry run disabled and the dry run, side by side: \<open>wr\<close> is the world of
  the first, \<open>wd\<close> the world of the second. At each listing that the first run makes, the
  engine reads the same in both worlds; the comparison goes on for as long as the first
  run does not raise.
\<close>

fun lookups_agree ::
  "'s cloudflare_client \<Rightarrow> string \<Rightarrow> bool \<Rightarrow> (string \<times> string \<times> string) list \<Rightarrow> string list
     \<Rightarrow> sync_summary \<Rightarrow> 's world \<Rightarrow> 's world \<Rightarrow> bool" where
  "lookups_agree cf public_ip default_proxied d2z [] c wd wr = True"
| "lookups_agree cf public_ip default_proxied d2z (domain # rest) c wd wr =
     (case map_of d2z domain of
        None \<Rightarrow> True
      | Some (zid, _) \<Rightarrow>
          seen_for domain (fst (list_a_records cf zid (Some domain) (remote wd)))
            = seen_for domain (fst (list_a_records cf zid (Some domain) (remote wr)))
          \<and> (case sync_record cf public_ip default_proxied False d2z domain c wr of
                (Inl e, wr1) \<Rightarrow> True
              | (Inr c1, wr1) \<Rightarrow>
                  lookups_agree cf public_ip default_proxied d2z rest c1
                    (snd (sync_record cf public_ip default_proxied True d2z domain c wd)) wr1))"

fun cleanup_agree ::
  "'s cloudflare_client \<Rightarrow> string fset \<Rightarrow> jdict list \<Rightarrow> sync_summary \<Rightarrow> 's world \<Rightarrow> 's world
     \<Rightarrow> bool" where
  "cleanup_agree cf desired [] c wd wr = True"
| "cleanup_agree cf desired (zone # rest) c wd wr =
     (let zid = py_str (get zone ''id'' (JStr []))
      in if zid = [] then cleanup_agree cf desired rest c wd wr
         else
           stale_seen desired (fst (list_a_records cf zid None (remote wd)))
             = stale_seen desired (fst (list_a_records cf zid None (remote wr)))
           \<and> (case cleanup_zones cf desired False [zone] c wr of
                 (Inl e, wr1) \<Rightarrow> True
               | (Inr c1, wr1) \<Rightarrow>
                   cleanup_agree cf desired rest c1
                     (snd (cleanup_zones cf desired True [zone] c wd)) wr1))"

definition listings_agree ::
  "string fset \<Rightarrow> string \<Rightarrow> bool \<Rightarrow> bool \<Rightarrow> 's cloudflare_client \<Rightarrow> 's world \<Rightarrow> bool" where
  "listings_agree domains public_ip default_proxied cleanup_stale cf w =
     (case call_list_zones cf w of
        (Inl e, w1) \<Rightarrow> True
      | (Inr zones, w1) \<Rightarrow>
         (case match_domains zones (sorted_list_of_fset domains) [] 0 w1 of
            (d2z, skp, w2) \<Rightarrow>
              (let c0 = \<lparr>creates = 0, updates = 0, noops = 0, deletes = 0, skipped = skp\<rparr>;
                   ds = sort (map fst d2z)
               in lookups_agree cf public_ip default_proxied d2z ds c0 w2 w2
                  \<and> (cleanup_stale \<longrightarrow>
                       (case sync_records cf public_ip default_proxied False d2z ds c0 w2 of
                          (Inl e, wr3) \<Rightarrow> True
                        | (Inr c, wr3) \<Rightarrow>
                            cleanup_agree cf domains zones c
                              (snd (sync_records cf public_ip default_proxied True d2z ds c0 w2))
                              wr3)))))"

text \<open>The session state after the sources of a list were asked in order.\<close>

fun session_after ::
  "(string \<Rightarrow> int \<Rightarrow> 's \<Rightarrow> (exn + http_response) \<times> 's) \<Rightarrow> int \<Rightarrow> string list \<Rightarrow> 's \<Rightarrow> 's" where
  "session_after session_get timeout_seconds [] s = s"
| "session_after session_get timeout_seconds (source # rest) s =
     session_after session_get timeout_seconds rest (snd (session_get source timeout_seconds s))"

section \<open>Trimming and the marker\<close>

lemma strip_fixed: "s \<noteq> [] \<Longrightarrow> \<not> isspace (hd s) \<Longrightarrow> \<not> isspace (last s) \<Longrightarrow> strip s = s"
  by (metis dropWhile_eq_self_iff hd_rev rev_rev_ident strip_def)

lemma last_dropWhile: "dropWhile P xs \<noteq> [] \<Longrightarrow> last (dropWhile P xs) = last xs"
  by (induction xs) (auto split: if_splits)

lemma strip_ends:
  assumes "strip s \<noteq> []"
  shows "\<not> isspace (hd (strip s))" and "\<not> isspace (last (strip s))"
proof -
  let ?t = "dropWhile isspace s"
  let ?u = "dropWhile isspace (rev ?t)"
  from assms have u: "?u \<noteq> []" by (simp add: strip_def)
  then have t: "?t \<noteq> []" by (metis dropWhile.simps(1) rev.simps(1))
  have "last (strip s) = hd ?u" by (simp add: strip_def last_rev)
  then show "\<not> isspace (last (strip s))" using u hd_dropWhile by metis
  have "hd (strip s) = last ?u" using u by (simp add: strip_def hd_rev)
  also have "\<dots> = last (rev ?t)" using u by (rule last_dropWhile)
  also have "\<dots> = hd ?t" using t by (simp add: last_rev)
  finally show "\<not> isspace (hd (strip s))" using t hd_dropWhile by metis
qed

lemma strip_idem: "strip (strip s) = strip s"
proof (cases "strip s = []")
  case True
  moreover have "strip [] = []" by (simp add: strip_def)
  ultimately show ?thesis by simp
next
  case False
  then show ?thesis using strip_ends strip_fixed by blast
qed

lemma strip_decomp:
  "\<exists>l r. s = l @ strip s @ r \<and> (\<forall>c\<in>set l. isspace c) \<and> (\<forall>c\<in>set r. isspace c)"
proof -
  let ?l = "takeWhile isspace s"
  let ?t = "dropWhile isspace s"
  let ?r = "rev (takeWhile isspace (rev ?t))"
  have "?t = strip s @ ?r"
    by (metis rev_append rev_rev_ident takeWhile_dropWhile_id strip_def)
  moreover have "s = ?l @ ?t" by simp
  ultimately have "s = ?l @ strip s @ ?r" by simp
  moreover have "\<forall>c\<in>set ?l. isspace c" by (auto dest: set_takeWhileD)
  moreover have "\<forall>c\<in>set ?r. isspace c" by (auto dest: set_takeWhileD)
  ultimately show ?thesis by blast
qed

lemma marker_nospace: "\<forall>c\<in>set MANAGED_MARKER. \<not> isspace c"
  by (simp add: MANAGED_MARKER_def isspace_def)

lemma sublist_skip_left:
  "sublist m (l @ t) \<Longrightarrow> \<forall>c\<in>set l. P c \<Longrightarrow> \<forall>c\<in>set m. \<not> P c \<Longrightarrow> m \<noteq> [] \<Longrightarrow> sublist m t"
proof (induction l)
  case Nil
  then show ?case by simp
next
  case (Cons a l)
  from Cons.prems(1) have "prefix m (a # l @ t) \<or> sublist m (l @ t)"
    by (simp add: sublist_Cons_right)
  moreover have "\<not> prefix m (a # l @ t)"
  proof
    assume "prefix m (a # l @ t)"
    with Cons.prems(4) have "hd m = a" by (cases m) auto
    with Cons.prems(2,3,4) show False by (cases m) auto
  qed
  ultimately show ?case using Cons by simp
qed

lemma sublist_skip_right:
  assumes "sublist m (t @ r)" "\<forall>c\<in>set r. P c" "\<forall>c\<in>set m. \<not> P c" "m \<noteq> []"
  shows "sublist m t"
proof -
  from assms(1) have "sublist (rev m) (rev r @ rev t)" by (metis rev_append sublist_rev)
  moreover have "\<forall>c\<in>set (rev r). P c" "\<forall>c\<in>set (rev m). \<not> P c" "rev m \<noteq> []"
    using assms by auto
  ultimately have "sublist (rev m) (rev t)" by (rule sublist_skip_left)
  then show ?thesis by simp
qed

lemma marker_in_strip: "sublist MANAGED_MARKER (strip s) \<longleftrightarrow> sublist MANAGED_MARKER s"
proof -
  obtain l r where s: "s = l @ strip s @ r" and l: "\<forall>c\<in>set l. isspace c" and r: "\<forall>c\<in>set r. isspace c"
    using strip_decomp by blast
  have ne: "MANAGED_MARKER \<noteq> []" by (simp add: MANAGED_MARKER_def)
  show ?thesis
  proof
    assume "sublist MANAGED_MARKER (strip s)"
    then have "sublist MANAGED_MARKER (l @ strip s @ r)" by (metis sublist_append)
    with s show "sublist MANAGED_MARKER s" by simp
  next
    assume "sublist MANAGED_MARKER s"
    with s have "sublist MANAGED_MARKER (l @ strip s @ r)" by simp
    then have "sublist MANAGED_MARKER (strip s @ r)" using l marker_nospace ne by (rule sublist_skip_left)
    then show "sublist MANAGED_MARKER (strip s)" using r marker_nospace ne by (rule sublist_skip_right)
  qed
qed

lemma strip_marker: "strip MANAGED_MARKER = MANAGED_MARKER"
  by (rule strip_fixed) (simp_all add: MANAGED_MARKER_def isspace_def)

lemma strip_appended:
  assumes "strip s \<noteq> []"
  shows "strip (strip s @ '' | '' @ MANAGED_MARKER) = strip s @ '' | '' @ MANAGED_MARKER"
proof (rule strip_fixed)
  show "strip s @ '' | '' @ MANAGED_MARKER \<noteq> []" by simp
  show "\<not> isspace (hd (strip s @ '' | '' @ MANAGED_MARKER))" using assms strip_ends(1) by simp
  show "\<not> isspace (last (strip s @ '' | '' @ MANAGED_MARKER))"
    by (simp add: MANAGED_MARKER_def isspace_def)
qed

lemma compose_idem: "compose_comment (Some (compose_comment x)) = compose_comment x"
proof -
  let ?cur = "strip (or_empty x)"
  consider (empty) "?cur = []" | (marked) "?cur \<noteq> []" "sublist MANAGED_MARKER ?cur"
    | (plain) "?cur \<noteq> []" "\<not> sublist MANAGED_MARKER ?cur" by blast
  then show ?thesis
  proof cases
    case empty
    then have "compose_comment x = MANAGED_MARKER" by (simp add: compose_comment_def Let_def or_empty_def)
    moreover have "compose_comment (Some MANAGED_MARKER) = MANAGED_MARKER"
      by (simp add: compose_comment_def Let_def or_empty_def strip_marker MANAGED_MARKER_def[symmetric])
    ultimately show ?thesis by simp
  next
    case marked
    then have "compose_comment x = ?cur" by (simp add: compose_comment_def Let_def or_empty_def)
    moreover have "compose_comment (Some ?cur) = ?cur"
      using marked by (simp add: compose_comment_def Let_def or_empty_def strip_idem)
    ultimately show ?thesis by simp
  next
    case plain
    let ?out = "?cur @ '' | '' @ MANAGED_MARKER"
    from plain have "compose_comment x = ?out" by (simp add: compose_comment_def Let_def or_empty_def)
    moreover have "strip ?out = ?out" using plain(1) by (rule strip_appended)
    moreover have "sublist MANAGED_MARKER ?out" by (metis sublist_append_leftI append.assoc)
    ultimately show ?thesis by (simp add: compose_comment_def Let_def or_empty_def)
  qed
qed

lemma occurrences_zero: "m \<noteq> [] \<Longrightarrow> occurrences m s = 0 \<longleftrightarrow> \<not> sublist m s"
  by (induction s) (auto simp: sublist_Cons_right)

lemma occurrences_appended:
  "\<not> sublist MANAGED_MARKER v \<Longrightarrow> occurrences MANAGED_MARKER (v @ '' | '' @ MANAGED_MARKER) = 1"
proof (induction v)
  case Nil
  show ?case by (simp add: MANAGED_MARKER_def)
next
  case (Cons a v)
  from Cons.prems have np: "\<not> prefix MANAGED_MARKER (a # v)" and ns: "\<not> sublist MANAGED_MARKER v"
    by (simp_all add: sublist_Cons_right)
  have "\<not> prefix MANAGED_MARKER ((a # v) @ '' | '' @ MANAGED_MARKER)"
  proof
    assume "prefix MANAGED_MARKER ((a # v) @ '' | '' @ MANAGED_MARKER)"
    then have "prefix MANAGED_MARKER (a # v)
        \<or> (\<exists>us. MANAGED_MARKER = (a # v) @ us \<and> prefix us ('' | '' @ MANAGED_MARKER))"
      by (simp only: prefix_append)
    with np obtain us where us: "MANAGED_MARKER = (a # v) @ us" "prefix us ('' | '' @ MANAGED_MARKER)"
      by blast
    with np have "us \<noteq> []" by auto
    with us(2) have "hd us = CHR '' ''" by (cases us) auto
    with \<open>us \<noteq> []\<close> have "CHR '' '' \<in> set us" by (cases us) auto
    with us(1) have "CHR '' '' \<in> set MANAGED_MARKER" by (metis Un_iff set_append)
    then show False by (simp add: MANAGED_MARKER_def)
  qed
  with Cons.IH[OF ns] show ?case by simp
qed

text \<open>
  Claim C4. The marker composer is idempotent, \<open>compose (compose x) = compose x\<close> for
  every string and for \<^verbatim>\<open>None\<close>. A comment that is empty once trimmed gives the marker
  alone, a comment that contains the marker is returned trimmed and otherwise unchanged,
  any other comment gets \<^verbatim>\<open>" | "\<close> and the marker appended; the marker is never
  duplicated: the result holds it as often as the trimmed comment did, and once when that
  had none.
\<close>

theorem compose_comment_idempotent:
  "compose_comment (Some (compose_comment x)) = compose_comment x
   \<and> compose_comment x =
       (if strip (or_empty x) = [] then MANAGED_MARKER
        else if sublist MANAGED_MARKER (or_empty x) then strip (or_empty x)
        else strip (or_empty x) @ '' | '' @ MANAGED_MARKER)
   \<and> occurrences MANAGED_MARKER (compose_comment x)
       = max 1 (occurrences MANAGED_MARKER (strip (or_empty x)))"
proof (intro conjI)
  let ?cur = "strip (or_empty x)"
  show "compose_comment (Some (compose_comment x)) = compose_comment x"
    by (rule compose_idem)
  show "compose_comment x =
       (if ?cur = [] then MANAGED_MARKER
        else if sublist MANAGED_MARKER (or_empty x) then ?cur
        else ?cur @ '' | '' @ MANAGED_MARKER)"
    by (simp add: compose_comment_def Let_def marker_in_strip)
  have ne: "MANAGED_MARKER \<noteq> []" by (simp add: MANAGED_MARKER_def)
  show "occurrences MANAGED_MARKER (compose_comment x) = max 1 (occurrences MANAGED_MARKER ?cur)"
  proof (cases "sublist MANAGED_MARKER ?cur")
    case True
    then have "occurrences MANAGED_MARKER ?cur \<noteq> 0" using ne by (simp add: occurrences_zero)
    moreover have "compose_comment x = ?cur" using True ne by (auto simp: compose_comment_def Let_def)
    ultimately show ?thesis by simp
  next
    case False
    then have z: "occurrences MANAGED_MARKER ?cur = 0" using ne by (simp add: occurrences_zero)
    have "occurrences MANAGED_MARKER (compose_comment x) = 1"
    proof (cases "?cur = []")
      case True
      then have "compose_comment x = [] @ MANAGED_MARKER" by (simp add: compose_comment_def Let_def or_empty_def)
      moreover have "occurrences MANAGED_MARKER ([] @ MANAGED_MARKER) = 1"
        by (simp add: MANAGED_MARKER_def)
      ultimately show ?thesis by simp
    next
      case nonempty: False
      then have "compose_comment x = ?cur @ '' | '' @ MANAGED_MARKER"
        using False by (simp add: compose_comment_def Let_def or_empty_def)
      then show ?thesis using occurrences_appended[OF False] by simp
    qed
    with z show ?thesis by simp
  qed
qed

theorem compose_comment_idempotent_witness:
  "compose_comment (Some (compose_comment (Some '' web ''))) = ''web | managed-by=ddns-traefik-sync''"
proof -
  have "compose_comment (Some (compose_comment (Some '' web ''))) = compose_comment (Some '' web '')"
    using compose_comment_idempotent [of "Some '' web ''"] by (rule conjunct1)
  also have "\<dots> = ''web | managed-by=ddns-traefik-sync''"
    by code_simp
  finally show ?thesis .
qed

section \<open>The zone matcher: the loop and its result\<close>

lemma best_zone_loop_step:
  "best_zone_loop domain (zone # zones) best =
     best_zone_loop domain zones
       (if improves domain zone best
        then Some (int (length (zone_key zone)), \<lparr>zone_id = zone_ident zone, zone_name = zone_key zone\<rparr>)
        else best)"
  by (auto simp: improves_def eligible_def zone_key_def zone_ident_def Let_def split: option.splits)

lemma best_zone_loop_None:
  "best_zone_loop domain zones best = None
     \<longleftrightarrow> best = None \<and> (\<forall>z\<in>set zones. \<not> eligible domain z)"
proof (induction zones arbitrary: best)
  case Nil
  show ?case by simp
next
  case (Cons zone zones)
  show ?case
    unfolding best_zone_loop_step Cons.IH
    by (auto simp: improves_def split: option.splits)
qed

lemma best_zone_loop_origin:
  "best_zone_loop domain zones best = Some (sc, m) \<Longrightarrow>
     best = Some (sc, m)
     \<or> (\<exists>z\<in>set zones. eligible domain z \<and> sc = int (length (zone_key z))
           \<and> m = \<lparr>zone_id = zone_ident z, zone_name = zone_key z\<rparr>)"
proof (induction zones arbitrary: best)
  case Nil
  then show ?case by simp
next
  case (Cons zone zones)
  from Cons.prems Cons.IH show ?case
    unfolding best_zone_loop_step
    by (fastforce simp: improves_def split: if_splits)
qed

lemma best_zone_loop_grows:
  "best_zone_loop domain zones best = Some (sc, m) \<Longrightarrow> best = Some (b, m') \<Longrightarrow> b \<le> sc"
proof (induction zones arbitrary: best b m')
  case Nil
  then show ?case by simp
next
  case (Cons zone zones)
  show ?case
  proof (cases "improves domain zone best")
    case True
    with Cons.prems(2) have "b < int (length (zone_key zone))" by (simp add: improves_def)
    moreover from Cons.prems(1) True have "int (length (zone_key zone)) \<le> sc"
      unfolding best_zone_loop_step by (auto dest: Cons.IH)
    ultimately show ?thesis by simp
  next
    case False
    with Cons.prems show ?thesis unfolding best_zone_loop_step by (auto dest: Cons.IH)
  qed
qed

lemma best_zone_loop_longest:
  "best_zone_loop domain zones best = Some (sc, m) \<Longrightarrow> z \<in> set zones \<Longrightarrow> eligible domain z
     \<Longrightarrow> int (length (zone_key z)) \<le> sc"
proof (induction zones arbitrary: best)
  case Nil
  then show ?case by simp
next
  case (Cons zone zones)
  let ?next = "if improves domain zone best
        then Some (int (length (zone_key zone)), \<lparr>zone_id = zone_ident zone, zone_name = zone_key zone\<rparr>)
        else best"
  from Cons.prems(1) have run: "best_zone_loop domain zones ?next = Some (sc, m)"
    unfolding best_zone_loop_step .
  show ?case
  proof (cases "z \<in> set zones")
    case True
    then show ?thesis using Cons.IH[OF run _ Cons.prems(3)] by simp
  next
    case False
    with Cons.prems(2) have z: "z = zone" by simp
    show ?thesis
    proof (cases "improves domain zone best")
      case True
      with run show ?thesis using best_zone_loop_grows z by fastforce
    next
      case False
      with Cons.prems(3) z obtain b m' where b: "best = Some (b, m')" "int (length (zone_key zone)) \<le> b"
        by (cases best) (auto simp: improves_def)
      with run False have "b \<le> sc" using best_zone_loop_grows by fastforce
      with b z show ?thesis by simp
    qed
  qed
qed

section \<open>The choice among several records\<close>

lemma pick_record_min:
  assumes "records \<noteq> []"
  shows "\<exists>t. pick_record records = Inr t \<and> t \<in> set records
           \<and> (\<forall>r\<in>set records. record_key t \<le> record_key r)
           \<and> t = hd (filter (\<lambda>r. record_key r = record_key t) records)"
proof -
  from assms have "sort_key record_key records \<noteq> []"
    by (metis length_0_conv length_sort)
  then obtain t rest where s: "sort_key record_key records = t # rest"
    by (cases "sort_key record_key records") auto
  have "sorted (map record_key (sort_key record_key records))" by (rule sorted_sort_key)
  with s have le: "\<forall>r\<in>set rest. record_key t \<le> record_key r" by simp
  have set: "set (t # rest) = set records" using s by (metis set_sort)
  have "filter (\<lambda>r. record_key r = record_key t) (sort_key record_key records)
          = filter (\<lambda>r. record_key r = record_key t) records"
    by (rule sort_key_stable)
  with s have "t = hd (filter (\<lambda>r. record_key r = record_key t) records)"
    by (metis (mono_tags, lifting) filter.simps(2) list.sel(1))
  moreover have "pick_record records = Inr t" using s by (simp add: pick_record_def)
  moreover have "t \<in> set records" using set by auto
  moreover have "\<forall>r\<in>set records. record_key t \<le> record_key r" using le set by auto
  ultimately show ?thesis by blast
qed

lemma pick_record_perm:
  assumes "records \<noteq> []" and "mset records' = mset records"
  shows "\<exists>t t'. pick_record records = Inr t \<and> pick_record records' = Inr t'
           \<and> t \<in> set records \<and> (\<forall>r\<in>set records. record_key t \<le> record_key r)
           \<and> t = hd (filter (\<lambda>r. record_key r = record_key t) records)
           \<and> record_key t' = record_key t
           \<and> (distinct (map record_key records) \<longrightarrow> t' = t)"
proof -
  from assms have ne: "records' \<noteq> []" by auto
  from assms(2) have sets: "set records' = set records" by (rule mset_eq_setD)
  from pick_record_min[OF assms(1)] obtain t where t: "pick_record records = Inr t"
    "t \<in> set records" "\<forall>r\<in>set records. record_key t \<le> record_key r"
    "t = hd (filter (\<lambda>r. record_key r = record_key t) records)" by blast
  from pick_record_min[OF ne] obtain t' where t': "pick_record records' = Inr t'"
    "t' \<in> set records'" "\<forall>r\<in>set records'. record_key t' \<le> record_key r" by blast
  from t t' sets have key: "record_key t' = record_key t" by (simp add: order_antisym)
  have "distinct (map record_key records) \<longrightarrow> t' = t"
  proof
    assume "distinct (map record_key records)"
    then have "inj_on record_key (set records)" by (simp add: distinct_map)
    with key t(2) t'(2) sets show "t' = t" by (auto dest: inj_onD)
  qed
  with t t'(1) key show ?thesis by blast
qed

section \<open>The engine: counters, calls and the dry run\<close>

lemma compose_unchanged_iff:
  "compose_comment x = strip (or_empty x) \<longleftrightarrow> sublist MANAGED_MARKER (or_empty x)"
proof -
  have ne: "MANAGED_MARKER \<noteq> []" by (simp add: MANAGED_MARKER_def)
  show ?thesis
  proof (cases "strip (or_empty x) = []")
    case True
    then have "\<not> sublist MANAGED_MARKER (strip (or_empty x))" using ne by simp
    then have "\<not> sublist MANAGED_MARKER (or_empty x)" by (simp add: marker_in_strip)
    with True ne show ?thesis by (simp add: compose_comment_def Let_def)
  next
    case False
    then show ?thesis by (simp add: compose_comment_def Let_def marker_in_strip)
  qed
qed

lemmas call_defs = call_list_zones_def call_list_a_records_def call_create_a_record_def
  call_update_a_record_def call_delete_record_def logger_def

lemma sync_record_counts:
  "sync_record cf ip dp dry d2z domain c w = (Inr c', w') \<Longrightarrow>
     creates c' + updates c' + noops c' = creates c + updates c + noops c + 1
     \<and> skipped c' = skipped c \<and> deletes c' = deletes c"
  by (auto simp: sync_record_def Let_def split: option.splits prod.splits sum.splits if_splits)

lemma sync_records_counts:
  "sync_records cf ip dp dry d2z ds c w = (Inr c', w') \<Longrightarrow>
     creates c' + updates c' + noops c' = creates c + updates c + noops c + int (length ds)
     \<and> skipped c' = skipped c \<and> deletes c' = deletes c"
proof (induction ds arbitrary: c w)
  case Nil
  then show ?case by simp
next
  case (Cons d ds)
  from Cons.prems obtain c1 w1 where
    one: "sync_record cf ip dp dry d2z d c w = (Inr c1, w1)" and
    rest: "sync_records cf ip dp dry d2z ds c1 w1 = (Inr c', w')"
    by (auto split: prod.splits sum.splits)
  from sync_record_counts[OF one] Cons.IH[OF rest] show ?case by simp
qed

lemma prune_records_frame:
  "prune_records cf desired dry zid rs c w = (Inr c', w') \<Longrightarrow>
     creates c' = creates c \<and> updates c' = updates c \<and> noops c' = noops c \<and> skipped c' = skipped c"
proof (induction rs arbitrary: c w dry)
  case Nil
  then show ?case by simp
next
  case (Cons r rs)
  from Cons.prems show ?case
    by (auto simp: Let_def split: if_splits option.splits prod.splits dest!: Cons.IH)
qed

lemma cleanup_zones_frame:
  "cleanup_zones cf desired dry zs c w = (Inr c', w') \<Longrightarrow>
     creates c' = creates c \<and> updates c' = updates c \<and> noops c' = noops c \<and> skipped c' = skipped c"
proof (induction zs arbitrary: c w dry)
  case Nil
  then show ?case by simp
next
  case (Cons z zs)
  from Cons.prems show ?case
    by (auto simp: Let_def split: if_splits sum.splits prod.splits dest!: Cons.IH prune_records_frame)
qed

lemma length_update_new: "k \<notin> fst ` set al \<Longrightarrow> length (AList.update k v al) = Suc (length al)"
  by (induction al) auto

lemma match_domains_length:
  "match_domains zones ds d2z skp w = (d2z', skp', w') \<Longrightarrow> distinct ds \<Longrightarrow>
     set ds \<inter> fst ` set d2z = {} \<Longrightarrow>
     int (length d2z') + skp' = int (length d2z) + skp + int (length ds)"
proof (induction ds arbitrary: d2z skp w)
  case Nil
  then show ?case by simp
next
  case (Cons d ds)
  show ?case
  proof (cases "find_best_zone_match d zones")
    case None
    with Cons.prems have "match_domains zones ds d2z (skp + 1)
        (logger (Warning (''Skipping '' @ d @ '': no matching Cloudflare zone.'')) w) = (d2z', skp', w')"
      by simp
    from Cons.IH[OF this] Cons.prems(2,3) show ?thesis by simp
  next
    case (Some m)
    let ?al = "AList.update d (zone_id m, zone_name m) d2z"
    from Some Cons.prems have run: "match_domains zones ds ?al skp w = (d2z', skp', w')" by simp
    from Cons.prems(3) have new: "d \<notin> fst ` set d2z" by auto
    have "set ds \<inter> fst ` set ?al = {}"
      using Cons.prems(2,3) by (auto simp: dom_update)
    from Cons.IH[OF run _ this] Cons.prems(2) length_update_new[OF new] show ?thesis by simp
  qed
qed

lemma prune_records_run:
  "prune_records cf desired dry zid a_records c w = (res, w') \<Longrightarrow>
    (dry \<longrightarrow> calls w' = calls w)
    \<and> (\<not> dry \<longrightarrow> (\<exists>k. calls w' = calls w @ map (\<lambda>r. DeleteRecord zid (py_str (the (r ''id''))))
                   (take k (filter (stale desired) a_records))))
    \<and> (\<forall>c'. res = Inr c' \<longrightarrow>
          c' = c\<lparr>deletes := deletes c + int (length (filter (stale desired) a_records))\<rparr>
          \<and> (\<not> dry \<longrightarrow> calls w' = calls w @ map (\<lambda>r. DeleteRecord zid (py_str (the (r ''id''))))
                      (filter (stale desired) a_records))
          \<and> logs w' = logs w @ map (\<lambda>r. Info (''Delete stale managed A record ''
                                   @ lower (py_str (get r ''name'' (JStr [])))))
                                (filter (stale desired) a_records))"
proof (induction a_records arbitrary: c w)
  case Nil
  then show ?case by auto
next
  case (Cons r rs)
  let ?del = "\<lambda>r. DeleteRecord zid (py_str (the (r ''id'')))"
  let ?msg = "\<lambda>r. Info (''Delete stale managed A record '' @ lower (py_str (get r ''name'' (JStr []))))"
  show ?case
  proof (cases "stale desired r")
    case False
    then have "prune_records cf desired dry zid (r # rs) c w = prune_records cf desired dry zid rs c w"
      by (auto simp: stale_def Let_def)
    with Cons.prems have "prune_records cf desired dry zid rs c w = (res, w')" by simp
    from Cons.IH[OF this] False show ?thesis by simp
  next
    case True
    let ?c1 = "c\<lparr>deletes := deletes c + 1\<rparr>"
    let ?w1 = "logger (?msg r) w"
    have w1: "calls ?w1 = calls w" "logs ?w1 = logs w @ [?msg r]" by (simp_all add: logger_def)
    show ?thesis
    proof (cases dry)
      case dry: True
      with True Cons.prems have "prune_records cf desired dry zid rs ?c1 ?w1 = (res, w')"
        by (auto simp: stale_def Let_def)
      from Cons.IH[OF this] True dry w1 show ?thesis by (simp add: add.assoc)
    next
      case real: False
      show ?thesis
      proof (cases "r ''id''")
        case None
        with True real Cons.prems have "res = Inl (KeyError ''id'')" "w' = ?w1"
          by (auto simp: stale_def Let_def)
        moreover from this w1 have "calls w' = calls w @ map ?del (take 0 (filter (stale desired) (r # rs)))"
          by simp
        ultimately show ?thesis using real by blast
      next
        case (Some i)
        obtain e w2 where call: "call_delete_record cf zid (py_str i) ?w1 = (e, w2)"
          by (cases "call_delete_record cf zid (py_str i) ?w1") auto
        then have w2: "calls w2 = calls w @ [DeleteRecord zid (py_str i)]" "logs w2 = logs w @ [?msg r]"
          by (auto simp: call_defs split: prod.splits)
        show ?thesis
        proof (cases e)
          case failed: (Some x)
          with True real Some call Cons.prems have "res = Inl x" "w' = w2"
            by (auto simp: stale_def Let_def)
          moreover from this w2 Some True
          have "calls w' = calls w @ map ?del (take 1 (filter (stale desired) (r # rs)))"
            by simp
          ultimately show ?thesis using real by blast
        next
          case None
          with True real Some call Cons.prems have run: "prune_records cf desired dry zid rs ?c1 w2 = (res, w')"
            by (auto simp: stale_def Let_def)
          from Cons.IH[OF run] real obtain k where
            k: "calls w' = calls w2 @ map ?del (take k (filter (stale desired) rs))"
            by auto
          with w2 Some True have "calls w' = calls w @ map ?del (take (Suc k) (filter (stale desired) (r # rs)))"
            by simp
          then have first: "\<exists>k. calls w' = calls w @ map ?del (take k (filter (stale desired) (r # rs)))"
            by blast
          from Cons.IH[OF run] w2 Some True real
          have "\<forall>c'. res = Inr c' \<longrightarrow>
              c' = c\<lparr>deletes := deletes c + int (length (filter (stale desired) (r # rs)))\<rparr>
              \<and> calls w' = calls w @ map ?del (filter (stale desired) (r # rs))
              \<and> logs w' = logs w @ map ?msg (filter (stale desired) (r # rs))"
            by (simp add: add.assoc)
          with first real show ?thesis by blast
        qed
      qed
    qed
  qed
qed

lemma match_domains_world:
  "match_domains zones ds d2z skp w = (a, b, w') \<Longrightarrow> calls w' = calls w \<and> remote w' = remote w"
  by (induction ds arbitrary: d2z skp w) (auto simp: logger_def split: option.splits)

lemma match_domains_indep:
  "fst (match_domains zones ds d2z skp w) = fst (match_domains zones ds d2z skp v)
   \<and> fst (snd (match_domains zones ds d2z skp w)) = fst (snd (match_domains zones ds d2z skp v))"
  by (induction ds arbitrary: d2z skp w v) (auto split: option.splits)

lemma sync_record_dry_calls:
  "filter mutating (calls (snd (sync_record cf ip dp True d2z domain c w))) = filter mutating (calls w)"
  by (auto simp: sync_record_def call_defs Let_def split: option.splits prod.splits sum.splits)

lemma sync_records_dry_calls:
  "filter mutating (calls (snd (sync_records cf ip dp True d2z ds c w))) = filter mutating (calls w)"
proof (induction ds arbitrary: c w)
  case Nil
  show ?case by simp
next
  case (Cons d ds)
  obtain r w1 where one: "sync_record cf ip dp True d2z d c w = (r, w1)"
    by (cases "sync_record cf ip dp True d2z d c w") auto
  with sync_record_dry_calls[of cf ip dp d2z d c w]
  have w1: "filter mutating (calls w1) = filter mutating (calls w)" by simp
  show ?case
  proof (cases r)
    case (Inl e)
    with one w1 show ?thesis by simp
  next
    case (Inr c1)
    with one w1 Cons.IH[of c1 w1] show ?thesis by simp
  qed
qed

lemma prune_records_dry_calls:
  "calls (snd (prune_records cf desired True zid rs c w)) = calls w"
  by (induction rs arbitrary: c w) (auto simp: Let_def logger_def)

lemma cleanup_zones_dry_calls:
  "filter mutating (calls (snd (cleanup_zones cf desired True zs c w))) = filter mutating (calls w)"
proof (induction zs arbitrary: c w)
  case Nil
  show ?case by simp
next
  case (Cons z zs)
  let ?zid = "py_str (get z ''id'' (JStr []))"
  show ?case
  proof (cases "?zid = []")
    case True
    with Cons.IH show ?thesis by simp
  next
    case False
    obtain r w1 where l: "call_list_a_records cf ?zid None w = (r, w1)"
      by (cases "call_list_a_records cf ?zid None w") auto
    then have w1: "filter mutating (calls w1) = filter mutating (calls w)"
      by (auto simp: call_defs split: prod.splits)
    show ?thesis
    proof (cases r)
      case (Inl e)
      with False l w1 show ?thesis by simp
    next
      case (Inr a_records)
      obtain r2 w2 where p: "prune_records cf desired True ?zid a_records c w1 = (r2, w2)"
        by (cases "prune_records cf desired True ?zid a_records c w1") auto
      with prune_records_dry_calls[of cf desired ?zid a_records c w1] have "calls w2 = calls w1" by simp
      with w1 have w2: "filter mutating (calls w2) = filter mutating (calls w)" by simp
      show ?thesis
      proof (cases r2)
        case (Inl e)
        with False l Inr p w2 show ?thesis by simp
      next
        case c1: (Inr c1)
        with False l Inr p w2 Cons.IH[of c1 w2] show ?thesis by simp
      qed
    qed
  qed
qed

lemma sync_domains_dry_calls:
  "filter mutating (calls (snd (sync_domains domains ip dp True cleanup cf w))) = filter mutating (calls w)"
proof -
  obtain r w1 where z: "call_list_zones cf w = (r, w1)" by (cases "call_list_zones cf w") auto
  then have w1: "filter mutating (calls w1) = filter mutating (calls w)"
    by (auto simp: call_defs split: prod.splits)
  show ?thesis
  proof (cases r)
    case (Inl e)
    with z w1 show ?thesis by (simp add: sync_domains_def)
  next
    case (Inr zones)
    obtain d2z skp w2 where m: "match_domains zones (sorted_list_of_fset domains) [] 0 w1 = (d2z, skp, w2)"
      by (cases "match_domains zones (sorted_list_of_fset domains) [] 0 w1") auto
    from match_domains_world[OF m] w1 have w2: "filter mutating (calls w2) = filter mutating (calls w)"
      by simp
    let ?c0 = "\<lparr>creates = 0, updates = 0, noops = 0, deletes = 0, skipped = skp\<rparr>"
    obtain r3 w3 where s: "sync_records cf ip dp True d2z (sort (map fst d2z)) ?c0 w2 = (r3, w3)"
      by (cases "sync_records cf ip dp True d2z (sort (map fst d2z)) ?c0 w2") auto
    with sync_records_dry_calls[of cf ip dp d2z "sort (map fst d2z)" ?c0 w2] w2
    have w3: "filter mutating (calls w3) = filter mutating (calls w)" by simp
    show ?thesis
    proof (cases r3)
      case (Inl e)
      with z Inr m s w3 show ?thesis by (simp add: sync_domains_def)
    next
      case c: (Inr c)
      with z Inr m s w3 cleanup_zones_dry_calls[of cf domains zones c w3]
      show ?thesis by (simp add: sync_domains_def)
    qed
  qed
qed

lemma sync_record_agree:
  assumes zone: "map_of d2z domain = Some (zid, zn)"
    and agree: "seen_for domain (fst (list_a_records cf zid (Some domain) (remote wd)))
        = seen_for domain (fst (list_a_records cf zid (Some domain) (remote wr)))"
    and run: "sync_record cf ip dp False d2z domain c wr = (Inr c', wr')"
  shows "fst (sync_record cf ip dp True d2z domain c wd) = Inr c'"
proof -
  obtain lr sr where lr: "list_a_records cf zid (Some domain) (remote wr) = (lr, sr)"
    by (cases "list_a_records cf zid (Some domain) (remote wr)") auto
  obtain ld sd where ld: "list_a_records cf zid (Some domain) (remote wd) = (ld, sd)"
    by (cases "list_a_records cf zid (Some domain) (remote wd)") auto
  from run zone lr obtain listed where listed: "lr = Inr listed"
    by (cases lr) (auto simp: sync_record_def call_defs)
  from agree lr ld listed obtain listed' where listed': "ld = Inr listed'"
    "filter (\<lambda>r. r ''name'' = Some (JStr domain)) listed'
       = filter (\<lambda>r. r ''name'' = Some (JStr domain)) listed"
    by (cases ld) (auto simp: seen_for_def)
  show ?thesis
    using run zone lr ld listed listed'
    by (auto simp: sync_record_def call_defs Let_def split: option.splits prod.splits sum.splits if_splits)
qed

lemma sync_records_agree:
  "lookups_agree cf ip dp d2z ds c wd wr \<Longrightarrow> sync_records cf ip dp False d2z ds c wr = (Inr c', wr')
    \<Longrightarrow> fst (sync_records cf ip dp True d2z ds c wd) = Inr c'"
proof (induction ds arbitrary: c wd wr)
  case Nil
  then show ?case by simp
next
  case (Cons d ds)
  from Cons.prems(2) obtain c1 w1 where
    one: "sync_record cf ip dp False d2z d c wr = (Inr c1, w1)" and
    rest: "sync_records cf ip dp False d2z ds c1 w1 = (Inr c', wr')"
    by (auto split: prod.splits sum.splits)
  from one obtain zid zn where zone: "map_of d2z d = Some (zid, zn)"
    by (auto simp: sync_record_def split: option.splits)
  from Cons.prems(1) zone one have
    agree: "seen_for d (fst (list_a_records cf zid (Some d) (remote wd)))
        = seen_for d (fst (list_a_records cf zid (Some d) (remote wr)))" and
    next_: "lookups_agree cf ip dp d2z ds c1 (snd (sync_record cf ip dp True d2z d c wd)) w1"
    by simp_all
  from sync_record_agree[OF zone agree one]
  obtain vd where dry: "sync_record cf ip dp True d2z d c wd = (Inr c1, vd)"
    by (metis prod.collapse)
  with next_ have "lookups_agree cf ip dp d2z ds c1 vd w1" by simp
  from Cons.IH[OF this rest] dry show ?case by simp
qed

lemma prune_records_dry_result:
  "fst (prune_records cf desired True zid rs c w)
     = Inr (c\<lparr>deletes := deletes c + int (length (filter (stale desired) rs))\<rparr>)"
proof (induction rs arbitrary: c w)
  case Nil
  show ?case by simp
next
  case (Cons r rs)
  show ?case
  proof (cases "stale desired r")
    case False
    then have "prune_records cf desired True zid (r # rs) c w = prune_records cf desired True zid rs c w"
      by (auto simp: stale_def Let_def)
    with Cons.IH[of c w] False show ?thesis by simp
  next
    case True
    then have "prune_records cf desired True zid (r # rs) c w
        = prune_records cf desired True zid rs (c\<lparr>deletes := deletes c + 1\<rparr>)
            (logger (Info (''Delete stale managed A record '' @ lower (py_str (get r ''name'' (JStr []))))) w)"
      by (auto simp: stale_def Let_def)
    with Cons.IH True show ?thesis by (simp add: add.assoc)
  qed
qed

lemma cleanup_zones_split:
  "cleanup_zones cf desired dry (zone # rest) c w =
     (case cleanup_zones cf desired dry [zone] c w of
        (Inl e, w1) \<Rightarrow> (Inl e, w1)
      | (Inr c1, w1) \<Rightarrow> cleanup_zones cf desired dry rest c1 w1)"
  by (auto simp: Let_def split: prod.splits sum.splits)

lemma cleanup_one_agree:
  assumes zid: "py_str (get zone ''id'' (JStr [])) \<noteq> []"
    and agree: "stale_seen desired (fst (list_a_records cf (py_str (get zone ''id'' (JStr []))) None (remote wd)))
        = stale_seen desired (fst (list_a_records cf (py_str (get zone ''id'' (JStr []))) None (remote wr)))"
    and run: "cleanup_zones cf desired False [zone] c wr = (Inr c1, wr1)"
  shows "fst (cleanup_zones cf desired True [zone] c wd) = Inr c1"
proof -
  let ?zid = "py_str (get zone ''id'' (JStr []))"
  from zid run obtain a_r w1 w2 where
    l: "call_list_a_records cf ?zid None wr = (Inr a_r, w1)" and
    p: "prune_records cf desired False ?zid a_r c w1 = (Inr c1, w2)"
    by (auto simp: Let_def split: prod.splits sum.splits)
  from prune_records_run[OF p]
  have c1: "c1 = c\<lparr>deletes := deletes c + int (length (filter (stale desired) a_r))\<rparr>" by simp
  from l have "fst (list_a_records cf ?zid None (remote wr)) = Inr a_r"
    by (auto simp: call_defs split: prod.splits)
  with agree obtain a_d where
    d: "fst (list_a_records cf ?zid None (remote wd)) = Inr a_d"
       "filter (stale desired) a_d = filter (stale desired) a_r"
    by (cases "fst (list_a_records cf ?zid None (remote wd))") (auto simp: stale_seen_def)
  obtain ld sd where ld: "list_a_records cf ?zid None (remote wd) = (ld, sd)"
    by (cases "list_a_records cf ?zid None (remote wd)") auto
  with d(1) obtain v1 where v1: "call_list_a_records cf ?zid None wd = (Inr a_d, v1)"
    by (auto simp: call_defs)
  obtain r2 v2 where pd: "prune_records cf desired True ?zid a_d c v1 = (r2, v2)"
    by (cases "prune_records cf desired True ?zid a_d c v1") auto
  with prune_records_dry_result[of cf desired ?zid a_d c v1] d(2) c1 have "r2 = Inr c1" by simp
  with zid v1 pd show ?thesis by (simp add: Let_def)
qed

lemma cleanup_zones_agree:
  "cleanup_agree cf desired zs c wd wr \<Longrightarrow> cleanup_zones cf desired False zs c wr = (Inr c', wr')
    \<Longrightarrow> fst (cleanup_zones cf desired True zs c wd) = Inr c'"
proof (induction zs arbitrary: c wd wr)
  case Nil
  then show ?case by simp
next
  case (Cons z zs)
  let ?zid = "py_str (get z ''id'' (JStr []))"
  show ?case
  proof (cases "?zid = []")
    case True
    with Cons.prems have "cleanup_agree cf desired zs c wd wr"
      "cleanup_zones cf desired False zs c wr = (Inr c', wr')" by simp_all
    from Cons.IH[OF this] True show ?thesis by simp
  next
    case False
    from Cons.prems(2) obtain c1 w1 where
      one: "cleanup_zones cf desired False [z] c wr = (Inr c1, w1)" and
      rest: "cleanup_zones cf desired False zs c1 w1 = (Inr c', wr')"
      by (subst (asm) cleanup_zones_split) (auto split: prod.splits sum.splits)
    from Cons.prems(1) False one have
      agree: "stale_seen desired (fst (list_a_records cf ?zid None (remote wd)))
        = stale_seen desired (fst (list_a_records cf ?zid None (remote wr)))" and
      next_: "cleanup_agree cf desired zs c1 (snd (cleanup_zones cf desired True [z] c wd)) w1"
      by (simp_all add: Let_def)
    from cleanup_one_agree[OF False agree one]
    obtain vd where dry: "cleanup_zones cf desired True [z] c wd = (Inr c1, vd)"
      by (metis prod.collapse)
    with next_ have "cleanup_agree cf desired zs c1 vd w1" by simp
    from Cons.IH[OF this rest] have "fst (cleanup_zones cf desired True zs c1 vd) = Inr c'" .
    moreover have "cleanup_zones cf desired True (z # zs) c wd = cleanup_zones cf desired True zs c1 vd"
      by (subst cleanup_zones_split) (simp only: dry prod.case sum.case)
    ultimately show ?thesis by simp
  qed
qed

lemma sync_domains_agree:
  assumes ag: "listings_agree domains ip dp cleanup cf w"
    and run: "fst (sync_domains domains ip dp False cleanup cf w) = Inr summary"
  shows "fst (sync_domains domains ip dp True cleanup cf w) = Inr summary"
proof -
  obtain zones w1 where z: "call_list_zones cf w = (Inr zones, w1)"
    using run by (auto simp: sync_domains_def split: prod.splits sum.splits)
  obtain d2z skp w2 where m: "match_domains zones (sorted_list_of_fset domains) [] 0 w1 = (d2z, skp, w2)"
    by (cases "match_domains zones (sorted_list_of_fset domains) [] 0 w1") auto
  let ?c0 = "\<lparr>creates = 0, updates = 0, noops = 0, deletes = 0, skipped = skp\<rparr>"
  let ?ds = "sort (map fst d2z)"
  obtain c w3 where s: "sync_records cf ip dp False d2z ?ds ?c0 w2 = (Inr c, w3)"
    using run z m by (auto simp: sync_domains_def split: prod.splits sum.splits)
  from ag z m have la: "lookups_agree cf ip dp d2z ?ds ?c0 w2 w2"
    by (simp add: listings_agree_def Let_def)
  from sync_records_agree[OF la s]
  obtain v3 where dry: "sync_records cf ip dp True d2z ?ds ?c0 w2 = (Inr c, v3)"
    by (metis prod.collapse)
  show ?thesis
  proof (cases cleanup)
    case False
    with run z m s dry show ?thesis by (simp add: sync_domains_def)
  next
    case True
    with run z m s obtain w4 where cl: "cleanup_zones cf domains False zones c w3 = (Inr summary, w4)"
      by (cases "cleanup_zones cf domains False zones c w3") (auto simp: sync_domains_def)
    from ag z m s True dry have "cleanup_agree cf domains zones c v3 w3"
      by (simp add: listings_agree_def Let_def)
    from cleanup_zones_agree[OF this cl] True z m dry show ?thesis
      by (simp add: sync_domains_def)
  qed
qed

section \<open>Evaluating the fixtures\<close>

lemmas fixtures = test_zone_def rec_exists_def rec_same_def rec_stale_def rec_other_def
  zone_a_def zone_b_def dup_r1_def dup_r2_def twin_a_def twin_b_def rec_padded_def
  test_cloudflare_def read_only_cloudflare_def fake_cloudflare_def fresh_def zero_summary_def
  stored_record_def store_cloudflare_def store_world_def wildcard_cloudflare_def

lemmas string_defs = strip_def isspace_def MANAGED_MARKER_def lower_def lower_char_def
  get_def or_empty_def sublist_code suffix_to_prefix Let_def

lemmas run_defs = sync_domains_def sync_record_def pick_record_def record_key_def comment_of_def
  compose_comment_def find_best_zone_match_def stale_def zone_key_def zone_ident_def eligible_def

lemma dup_keys: "record_key dup_r1 = ''r1''" "record_key dup_r2 = ''r2''"
  "record_key twin_a = []" "record_key twin_b = []"
  by (simp_all add: record_key_def get_def fixtures)

section \<open>The claims about the zone matcher and the choice of a record\<close>

text \<open>
  Claim C3, as the code has it. A zone is eligible for a hostname when its id and its
  lower-cased name are both non-empty and the hostname equals the lower-cased name or ends
  with a dot followed by it. The zone matcher returns none, and raises nothing, exactly
  when no zone of the list is eligible; otherwise it returns the id and the lower-cased
  name of an eligible zone whose lower-cased name is longest among the eligible zones.
  So for the zones example.com and sub.example.com and the hostname a.sub.example.com it
  selects sub.example.com.
\<close>

theorem find_best_zone_match_longest_eligible:
  "(find_best_zone_match domain zones = None \<longleftrightarrow> (\<forall>z\<in>set zones. \<not> eligible domain z))
   \<and> (\<forall>m. find_best_zone_match domain zones = Some m \<longrightarrow>
         (\<exists>z\<in>set zones. eligible domain z
            \<and> m = \<lparr>zone_id = zone_ident z, zone_name = zone_key z\<rparr>
            \<and> (\<forall>z'\<in>set zones. eligible domain z' \<longrightarrow> length (zone_key z') \<le> length (zone_key z))))"
proof (intro conjI allI impI)
  show "find_best_zone_match domain zones = None \<longleftrightarrow> (\<forall>z\<in>set zones. \<not> eligible domain z)"
    by (simp add: find_best_zone_match_def best_zone_loop_None)
next
  fix m
  assume "find_best_zone_match domain zones = Some m"
  then obtain sc where run: "best_zone_loop domain zones None = Some (sc, m)"
    by (auto simp: find_best_zone_match_def)
  from best_zone_loop_origin[OF run] obtain z where z: "z \<in> set zones" "eligible domain z"
    "sc = int (length (zone_key z))" "m = \<lparr>zone_id = zone_ident z, zone_name = zone_key z\<rparr>"
    by auto
  have "\<forall>z'\<in>set zones. eligible domain z' \<longrightarrow> length (zone_key z') \<le> length (zone_key z)"
    using best_zone_loop_longest[OF run] z(3) by fastforce
  with z show "\<exists>z\<in>set zones. eligible domain z
            \<and> m = \<lparr>zone_id = zone_ident z, zone_name = zone_key z\<rparr>
            \<and> (\<forall>z'\<in>set zones. eligible domain z' \<longrightarrow> length (zone_key z') \<le> length (zone_key z))"
    by blast
qed

text \<open>The fixture of tests/test\_cloudflare\_client.py: sub.example.com wins over
  example.com, which is eligible too and shorter.\<close>

theorem find_best_zone_match_longest_eligible_witness:
  "find_best_zone_match ''a.sub.example.com'' [zone_a, zone_b]
     = Some \<lparr>zone_id = ''2'', zone_name = ''sub.example.com''\<rparr>
   \<and> length (zone_key zone_a) \<le> length ''sub.example.com''"
proof -
  let ?m = "\<lparr>zone_id = ''2'', zone_name = ''sub.example.com''\<rparr>"
  have run: "find_best_zone_match ''a.sub.example.com'' [zone_a, zone_b] = Some ?m"
    by (simp add: run_defs string_defs fixtures)
  have el: "eligible ''a.sub.example.com'' zone_a"
    by (simp add: run_defs string_defs fixtures)
  from find_best_zone_match_longest_eligible [of "''a.sub.example.com''" "[zone_a, zone_b]"] run
  obtain z where "?m = \<lparr>zone_id = zone_ident z, zone_name = zone_key z\<rparr>"
    and "\<forall>z'\<in>set [zone_a, zone_b]. eligible ''a.sub.example.com'' z'
           \<longrightarrow> length (zone_key z') \<le> length (zone_key z)"
    by blast
  with el have "length (zone_key zone_a) \<le> length ''sub.example.com''" by auto
  with run show ?thesis by simp
qed

text \<open>Claim C3 as it was stated fails at a zone without an id: the hostname ends with a
  dot and the zone's name, and the matcher returns none.\<close>

theorem find_best_zone_match_counterexample:
  "suffix (''.'' @ ''example.com'') ''a.example.com''
   \<and> find_best_zone_match ''a.example.com'' [[''name'' \<mapsto> JStr ''example.com'']] = None"
  by code_simp

text \<open>
  Claim C7, as the code has it. Of one or more records the engine selects one whose id
  string is lexicographically smallest, the first such in the list. For every permutation
  of the list the selected record has the same id string, and it is the same record
  whenever the id strings of the list are pairwise distinct (given the ids r1 and r2 it
  is always r1). A warning is logged when more than one record is found for a hostname.
\<close>

theorem pick_record_smallest_id:
  "(records \<noteq> [] \<and> mset records' = mset records \<longrightarrow>
      (\<exists>t t'. pick_record records = Inr t \<and> pick_record records' = Inr t'
         \<and> t \<in> set records \<and> (\<forall>r\<in>set records. record_key t \<le> record_key r)
         \<and> t = hd (filter (\<lambda>r. record_key r = record_key t) records)
         \<and> record_key t' = record_key t
         \<and> (distinct (map record_key records) \<longrightarrow> t' = t)))
   \<and> (map_of d2z domain = Some (zid, zn)
        \<and> list_a_records cf zid (Some domain) (remote w) = (Inr listed, s1)
        \<and> 1 < length (filter (\<lambda>r. r ''name'' = Some (JStr domain)) listed) \<longrightarrow>
      Warning (''Multiple A records found for '' @ domain
                 @ '', using deterministic first record.'')
        \<in> set (logs (snd (sync_record cf ip dp dry d2z domain c w))))"
proof (intro conjI impI)
  assume "records \<noteq> [] \<and> mset records' = mset records"
  then show "\<exists>t t'. pick_record records = Inr t \<and> pick_record records' = Inr t'
         \<and> t \<in> set records \<and> (\<forall>r\<in>set records. record_key t \<le> record_key r)
         \<and> t = hd (filter (\<lambda>r. record_key r = record_key t) records)
         \<and> record_key t' = record_key t
         \<and> (distinct (map record_key records) \<longrightarrow> t' = t)"
    using pick_record_perm by blast
next
  assume a: "map_of d2z domain = Some (zid, zn)
        \<and> list_a_records cf zid (Some domain) (remote w) = (Inr listed, s1)
        \<and> 1 < length (filter (\<lambda>r. r ''name'' = Some (JStr domain)) listed)"
  then have ne: "filter (\<lambda>r. r ''name'' = Some (JStr domain)) listed \<noteq> []" by auto
  from a ne show "Warning (''Multiple A records found for '' @ domain
                 @ '', using deterministic first record.'')
        \<in> set (logs (snd (sync_record cf ip dp dry d2z domain c w)))"
    by (auto simp: sync_record_def call_defs Let_def split: prod.splits option.splits sum.splits)
qed

theorem pick_record_smallest_id_witness:
  "pick_record [dup_r2, dup_r1] = pick_record [dup_r1, dup_r2]
   \<and> Warning ''Multiple A records found for a.example.com, using deterministic first record.''
       \<in> set (logs (snd (sync_record
            (fake_cloudflare [test_zone] [''a.example.com'' \<mapsto> [dup_r2, dup_r1]] [])
            ''203.0.113.10'' False True [(''a.example.com'', ''zone1'', ''example.com'')]
            ''a.example.com'' zero_summary fresh)))"
proof -
  let ?cf = "fake_cloudflare [test_zone] [''a.example.com'' \<mapsto> [dup_r2, dup_r1]] []"
  let ?d2z = "[(''a.example.com'', ''zone1'', ''example.com'')]"
  have h1: "[dup_r1, dup_r2] \<noteq> [] \<and> mset [dup_r2, dup_r1] = mset [dup_r1, dup_r2]"
    by (simp add: add.commute)
  have d: "distinct (map record_key [dup_r1, dup_r2])" by (simp add: dup_keys)
  from pick_record_smallest_id [where records = "[dup_r1, dup_r2]" and records' = "[dup_r2, dup_r1]",
      THEN conjunct1] h1 d
  have one: "pick_record [dup_r2, dup_r1] = pick_record [dup_r1, dup_r2]"
    by auto
  have h2: "map_of ?d2z ''a.example.com'' = Some (''zone1'', ''example.com'')
        \<and> list_a_records ?cf ''zone1'' (Some ''a.example.com'') (remote fresh)
            = (Inr [dup_r2, dup_r1], remote fresh)
        \<and> 1 < length (filter (\<lambda>r. r ''name'' = Some (JStr ''a.example.com'')) [dup_r2, dup_r1])"
    by (simp add: fixtures)
  have two:
    "Warning (''Multiple A records found for '' @ ''a.example.com''
                 @ '', using deterministic first record.'')
       \<in> set (logs (snd (sync_record ?cf ''203.0.113.10'' False True ?d2z ''a.example.com''
                             zero_summary fresh)))"
    by (rule pick_record_smallest_id [THEN conjunct2, rule_format, OF h2])
  from one two show ?thesis by simp
qed

text \<open>Claim C7 as it was stated fails at two records that share their id string (here
  both have none): each order of the list selects its first record, and the two differ.\<close>

theorem pick_record_counterexample:
  "mset [twin_b, twin_a] = mset [twin_a, twin_b]
   \<and> pick_record [twin_a, twin_b] = Inr twin_a
   \<and> pick_record [twin_b, twin_a] = Inr twin_b
   \<and> twin_a ''content'' \<noteq> twin_b ''content''"
  by (simp add: pick_record_def dup_keys add.commute) (simp add: fixtures)

section \<open>The claims about one reconciliation cycle\<close>

lemma sorted_three:
  "sorted_list_of_fset {|''new.example.com'', ''exists.example.com'', ''same.example.com''|}
     = [''exists.example.com'', ''new.example.com'', ''same.example.com'']"
  by code_simp

lemma sorted_one: "sorted_list_of_fset {|''new.example.com''|} = [''new.example.com'']"
  by code_simp

lemma fcard_three:
  "fcard {|''new.example.com'', ''exists.example.com'', ''same.example.com''|} = 3"
  by code_simp

lemma test_run:
  "fst (sync_domains {|''new.example.com'', ''exists.example.com'', ''same.example.com''|}
          ''203.0.113.10'' False False True test_cloudflare fresh)
     = Inr \<lparr>creates = 1, updates = 1, noops = 1, deletes = 1, skipped = 0\<rparr>"
  by (simp add: sorted_three run_defs string_defs call_defs fixtures)

text \<open>
  Claim C10. Whenever \<^verbatim>\<open>sync_domains\<close> returns a summary, creates + updates + noops +
  skipped equals the number of distinct input domains: every domain adds one to exactly
  one of the four counters. The deletes counter takes no part in this; without cleanup it
  stays at zero.
\<close>

theorem sync_domains_accounts_for_every_domain:
  "fst (sync_domains domains ip dp dry cleanup cf w) = Inr summary \<Longrightarrow>
     creates summary + updates summary + noops summary + skipped summary = int (fcard domains)
     \<and> (\<not> cleanup \<longrightarrow> deletes summary = 0)"
proof -
  assume run: "fst (sync_domains domains ip dp dry cleanup cf w) = Inr summary"
  obtain zones w1 where z: "call_list_zones cf w = (Inr zones, w1)"
    using run by (auto simp: sync_domains_def split: prod.splits sum.splits)
  obtain d2z skp w2 where m: "match_domains zones (sorted_list_of_fset domains) [] 0 w1 = (d2z, skp, w2)"
    by (cases "match_domains zones (sorted_list_of_fset domains) [] 0 w1") auto
  let ?c0 = "\<lparr>creates = 0, updates = 0, noops = 0, deletes = 0, skipped = skp\<rparr>"
  obtain c w3 where s: "sync_records cf ip dp dry d2z (sort (map fst d2z)) ?c0 w2 = (Inr c, w3)"
    using run z m by (auto simp: sync_domains_def split: prod.splits sum.splits)
  have fin: "(if cleanup then fst (cleanup_zones cf domains dry zones c w3) else Inr c) = Inr summary"
    using run z m s by (auto simp: sync_domains_def)
  have len: "int (length d2z) + skp = int (fcard domains)"
    using match_domains_length[OF m]
    by (simp add: fcard.rep_eq sorted_list_of_fset.rep_eq distinct_card[symmetric]
          flip: length_remdups_card_conv)
  from sync_records_counts[OF s] have c: "creates c + updates c + noops c = int (length d2z)"
    "skipped c = skp" "deletes c = 0" by simp_all
  have keep: "creates summary = creates c \<and> updates summary = updates c \<and> noops summary = noops c
      \<and> skipped summary = skipped c"
  proof (cases cleanup)
    case True
    with fin obtain w4 where "cleanup_zones cf domains dry zones c w3 = (Inr summary, w4)"
      by (cases "cleanup_zones cf domains dry zones c w3") auto
    then show ?thesis by (rule cleanup_zones_frame)
  next
    case False
    with fin show ?thesis by simp
  qed
  have "\<not> cleanup \<longrightarrow> deletes summary = 0" using fin c by auto
  with keep c len show ?thesis by simp
qed

text \<open>The scenario of tests/test\_sync\_engine.py: three hostnames, one created, one
  updated, one left alone.\<close>

theorem sync_domains_accounts_for_every_domain_witness:
  "fst (sync_domains {|''new.example.com'', ''exists.example.com'', ''same.example.com''|}
          ''203.0.113.10'' False False True test_cloudflare fresh)
     = Inr \<lparr>creates = 1, updates = 1, noops = 1, deletes = 1, skipped = 0\<rparr>
   \<and> (1 :: int) + 1 + 1 + 0
       = int (fcard {|''new.example.com'', ''exists.example.com'', ''same.example.com''|})"
  using sync_domains_accounts_for_every_domain [OF test_run] test_run by simp

text \<open>
  Claim C5. For a desired hostname with a zone in \<^verbatim>\<open>domain_to_zone\<close> whose listing holds
  no A record of that exact name, the engine makes exactly one create action: after the
  listing call it calls \<^verbatim>\<open>create_a_record\<close> once (not at all in a dry run) with the
  zone, the hostname, the public IP, the configured default as proxied flag and the
  marker alone as comment, logs the creation once, and adds exactly one to creates (the
  exception of a failing create call propagates instead).
\<close>

theorem sync_record_creates_with_marker:
  assumes "map_of d2z domain = Some (zid, zn)"
    and "list_a_records cf zid (Some domain) (remote w) = (Inr listed, s1)"
    and "filter (\<lambda>r. r ''name'' = Some (JStr domain)) listed = []"
  shows "calls (snd (sync_record cf ip dp dry d2z domain c w))
           = calls w @ ListARecords zid (Some domain)
               # (if dry then [] else [CreateARecord zid domain ip dp MANAGED_MARKER])
     \<and> fst (sync_record cf ip dp dry d2z domain c w)
           = (if dry then Inr (c\<lparr>creates := creates c + 1\<rparr>)
              else case fst (create_a_record cf zid domain ip dp MANAGED_MARKER s1) of
                     None \<Rightarrow> Inr (c\<lparr>creates := creates c + 1\<rparr>)
                   | Some e \<Rightarrow> Inl e)
     \<and> logs (snd (sync_record cf ip dp dry d2z domain c w))
           = logs w @ [Info (''Create A record '' @ domain @ '' -> '' @ ip)]"
  using assms
  by (simp add: sync_record_def call_defs Let_def split: prod.splits option.splits)

theorem sync_record_creates_with_marker_witness:
  "calls (snd (sync_record test_cloudflare ''203.0.113.10'' False False
        [(''new.example.com'', ''zone1'', ''example.com'')] ''new.example.com'' zero_summary fresh))
     = [ListARecords ''zone1'' (Some ''new.example.com''),
        CreateARecord ''zone1'' ''new.example.com'' ''203.0.113.10'' False MANAGED_MARKER]
   \<and> fst (sync_record test_cloudflare ''203.0.113.10'' False False
        [(''new.example.com'', ''zone1'', ''example.com'')] ''new.example.com'' zero_summary fresh)
     = Inr (zero_summary\<lparr>creates := 1\<rparr>)"
proof -
  have a: "map_of [(''new.example.com'', ''zone1'', ''example.com'')] ''new.example.com''
             = Some (''zone1'', ''example.com'')" by simp
  have b: "list_a_records test_cloudflare ''zone1'' (Some ''new.example.com'') (remote fresh)
             = (Inr [], remote fresh)" by (simp add: fixtures)
  have c: "filter (\<lambda>r. r ''name'' = Some (JStr ''new.example.com'')) [] = []" by simp
  have d: "fst (create_a_record test_cloudflare ''zone1'' ''new.example.com'' ''203.0.113.10'' False
                  MANAGED_MARKER (remote fresh)) = None" by (simp add: fixtures)
  have e: "calls fresh = []" "creates zero_summary = 0" by (simp_all add: fixtures)
  from sync_record_creates_with_marker [OF a b c, of "''203.0.113.10''" False False zero_summary] d e
  show ?thesis by simp
qed

text \<open>
  Claim C6. On an update the proxied flag sent to the provider is the one of the existing
  target record (its truth value, as \<^verbatim>\<open>bool\<close> gives it), not the configured default:
  the default is sent only when the target record has no proxied field, and otherwise
  has no influence on what the engine does with a hostname that has a record. (On a
  create the default is the flag sent, see C5.)
\<close>

theorem sync_record_update_keeps_proxied:
  assumes "map_of d2z domain = Some (zid, zn)"
    and "list_a_records cf zid (Some domain) (remote w) = (Inr listed, s1)"
    and "pick_record (filter (\<lambda>r. r ''name'' = Some (JStr domain)) listed) = Inr target"
    and "comment_of target = Inr existing"
    and "\<not> (py_str (get target ''content'' (JStr [])) = ip
           \<and> compose_comment existing = strip (or_empty existing))"
    and "target ''id'' = Some i"
  shows "calls (snd (sync_record cf ip dp dry d2z domain c w))
           = calls w @ ListARecords zid (Some domain)
               # (if dry then []
                  else [UpdateARecord zid (py_str i) domain ip
                          (case target ''proxied'' of None \<Rightarrow> dp | Some v \<Rightarrow> truthy v)
                          (compose_comment existing)])
     \<and> (target ''proxied'' \<noteq> None \<longrightarrow>
          sync_record cf ip dp' dry d2z domain c w = sync_record cf ip dp dry d2z domain c w)"
proof -
  from assms(3) have ne: "filter (\<lambda>r. r ''name'' = Some (JStr domain)) listed \<noteq> []"
    by (auto simp: pick_record_def)
  show ?thesis
    using assms ne
    by (auto simp: sync_record_def call_defs Let_def get_def split: prod.splits option.splits)
qed

text \<open>The record of exists.example.com in the test is proxied, the default is not: the
  update keeps the record's flag.\<close>

theorem sync_record_update_keeps_proxied_witness:
  "calls (snd (sync_record test_cloudflare ''203.0.113.10'' False False
        [(''exists.example.com'', ''zone1'', ''example.com'')] ''exists.example.com''
        zero_summary fresh))
     = [ListARecords ''zone1'' (Some ''exists.example.com''),
        UpdateARecord ''zone1'' ''r1'' ''exists.example.com'' ''203.0.113.10'' True MANAGED_MARKER]"
proof -
  have a: "map_of [(''exists.example.com'', ''zone1'', ''example.com'')] ''exists.example.com''
             = Some (''zone1'', ''example.com'')" by simp
  have b: "list_a_records test_cloudflare ''zone1'' (Some ''exists.example.com'') (remote fresh)
             = (Inr [rec_exists], remote fresh)" by (simp add: fixtures)
  have n: "rec_exists ''name'' = Some (JStr ''exists.example.com'')" by (simp add: fixtures)
  have c: "pick_record (filter (\<lambda>r. r ''name'' = Some (JStr ''exists.example.com'')) [rec_exists])
             = Inr rec_exists" by (simp add: n pick_record_def)
  have d: "comment_of rec_exists = Inr (Some [])" by (simp add: comment_of_def fixtures)
  have e: "\<not> (py_str (get rec_exists ''content'' (JStr [])) = ''203.0.113.10''
             \<and> compose_comment (Some []) = strip (or_empty (Some [])))"
    by (simp add: get_def fixtures)
  have f: "rec_exists ''id'' = Some (JStr ''r1'')" by (simp add: fixtures)
  have g: "rec_exists ''proxied'' = Some (JBool True)" by (simp add: fixtures)
  have h: "compose_comment (Some []) = MANAGED_MARKER"
    by (simp add: compose_comment_def string_defs)
  have i: "calls fresh = []" by (simp add: fixtures)
  from sync_record_update_keeps_proxied [OF a b c d e f, of False False zero_summary, THEN conjunct1]
  show ?thesis by (simp add: g h i)
qed

text \<open>
  Claim C1, as the code has it. For a hostname with at least one existing record, the
  engine decides no-op if and only if the address of the selected target record equals
  the desired public IP and the target's comment, trimmed, equals the comment composed
  from it, which is the case exactly when the comment contains the marker; a no-op makes
  no mutating call. In every other case it decides an update: updates is counted, and the
  update call carries the new address and the composed comment.
\<close>

theorem sync_record_noop_iff:
  assumes "map_of d2z domain = Some (zid, zn)"
    and "list_a_records cf zid (Some domain) (remote w) = (Inr listed, s1)"
    and "pick_record (filter (\<lambda>r. r ''name'' = Some (JStr domain)) listed) = Inr target"
    and "comment_of target = Inr existing"
  shows "(fst (sync_record cf ip dp dry d2z domain c w) = Inr (c\<lparr>noops := noops c + 1\<rparr>)
            \<longleftrightarrow> py_str (get target ''content'' (JStr [])) = ip
                \<and> strip (or_empty existing) = compose_comment existing)
     \<and> (strip (or_empty existing) = compose_comment existing
            \<longleftrightarrow> sublist MANAGED_MARKER (or_empty existing))
     \<and> (py_str (get target ''content'' (JStr [])) = ip
            \<and> strip (or_empty existing) = compose_comment existing
          \<longrightarrow> calls (snd (sync_record cf ip dp dry d2z domain c w))
                = calls w @ [ListARecords zid (Some domain)])
     \<and> (\<not> (py_str (get target ''content'' (JStr [])) = ip
              \<and> strip (or_empty existing) = compose_comment existing)
          \<longrightarrow> (\<forall>c'. fst (sync_record cf ip dp dry d2z domain c w) = Inr c'
                  \<longrightarrow> c' = c\<lparr>updates := updates c + 1\<rparr>)
              \<and> (dry \<longrightarrow> fst (sync_record cf ip dp dry d2z domain c w)
                           = Inr (c\<lparr>updates := updates c + 1\<rparr>))
              \<and> (\<forall>i. \<not> dry \<and> target ''id'' = Some i
                  \<longrightarrow> calls (snd (sync_record cf ip dp dry d2z domain c w))
                      = calls w @ [ListARecords zid (Some domain),
                          UpdateARecord zid (py_str i) domain ip
                            (truthy (get target ''proxied'' (JBool dp)))
                            (compose_comment existing)]))"
proof -
  from assms(3) have ne: "filter (\<lambda>r. r ''name'' = Some (JStr domain)) listed \<noteq> []"
    by (auto simp: pick_record_def)
  have neq: "c\<lparr>updates := updates c + 1\<rparr> \<noteq> c\<lparr>noops := noops c + 1\<rparr>"
    by (metis add.right_neutral add_left_cancel sync_summary.select_convs(3) sync_summary.surjective sync_summary.update_convs(2,3) zero_neq_one)
  have a: "strip (or_empty existing) = compose_comment existing
            \<longleftrightarrow> sublist MANAGED_MARKER (or_empty existing)"
    using compose_unchanged_iff[of existing] by auto
  show ?thesis
    unfolding a
    using assms ne neq a
    by (auto simp: sync_record_def call_defs Let_def split: prod.splits option.splits)
qed

theorem sync_record_noop_iff_witness:
  "fst (sync_record test_cloudflare ''203.0.113.10'' False False
        [(''same.example.com'', ''zone1'', ''example.com'')] ''same.example.com''
        zero_summary fresh)
     = Inr (zero_summary\<lparr>noops := noops zero_summary + 1\<rparr>)"
proof -
  have a: "map_of [(''same.example.com'', ''zone1'', ''example.com'')] ''same.example.com''
             = Some (''zone1'', ''example.com'')" by simp
  have b: "list_a_records test_cloudflare ''zone1'' (Some ''same.example.com'') (remote fresh)
             = (Inr [rec_same], remote fresh)" by (simp add: fixtures)
  have n: "rec_same ''name'' = Some (JStr ''same.example.com'')" by (simp add: fixtures)
  have c: "pick_record (filter (\<lambda>r. r ''name'' = Some (JStr ''same.example.com'')) [rec_same])
             = Inr rec_same" by (simp add: n pick_record_def)
  have d: "comment_of rec_same = Inr (Some MANAGED_MARKER)" by (simp add: comment_of_def fixtures)
  have e: "py_str (get rec_same ''content'' (JStr [])) = ''203.0.113.10''
             \<and> strip (or_empty (Some MANAGED_MARKER)) = compose_comment (Some MANAGED_MARKER)"
    by (simp add: get_def fixtures compose_comment_def or_empty_def strip_marker Let_def)
  from sync_record_noop_iff [OF a b c d, of "''203.0.113.10''" False False zero_summary,
      THEN conjunct1] e
  show ?thesis by simp
qed

text \<open>Claim C1 as it was stated compares the raw comment: a managed record whose comment
  ends in a space has the desired address and a raw comment that differs from the
  composed one, and the engine decides no-op.\<close>

theorem sync_record_noop_counterexample:
  "rec_padded ''comment'' = Some (JStr (MANAGED_MARKER @ '' ''))
   \<and> compose_comment (Some (MANAGED_MARKER @ '' '')) \<noteq> MANAGED_MARKER @ '' ''
   \<and> fst (sync_record (fake_cloudflare [test_zone] [''same.example.com'' \<mapsto> [rec_padded]] [])
        ''203.0.113.10'' False False [(''same.example.com'', ''zone1'', ''example.com'')]
        ''same.example.com'' zero_summary fresh)
     = Inr (zero_summary\<lparr>noops := 1\<rparr>)"
  by (simp add: run_defs string_defs call_defs fixtures)

text \<open>
  Claim C2. Over the record set fetched for a zone, the pruner takes the delete action on
  a record if and only if the record's comment contains the marker and its lower-cased
  name is not in the desired set: when it returns, it has counted and logged exactly
  these records and, unless the run is dry, called \<^verbatim>\<open>delete_record\<close> for exactly these,
  in order. Whatever happens, every delete call made is for one of these records, so a
  record whose comment lacks the marker is never deleted, whether its name is desired or
  not.
\<close>

theorem prune_records_deletes_exactly_stale:
  "prune_records cf desired dry zid a_records c w = (res, w') \<Longrightarrow>
     (\<exists>k. calls w' = calls w @ (if dry then []
             else map (\<lambda>r. DeleteRecord zid (py_str (the (r ''id''))))
                    (take k (filter (stale desired) a_records))))
     \<and> (\<forall>c'. res = Inr c' \<longrightarrow>
          c' = c\<lparr>deletes := deletes c + int (length (filter (stale desired) a_records))\<rparr>
          \<and> calls w' = calls w @ (if dry then []
               else map (\<lambda>r. DeleteRecord zid (py_str (the (r ''id''))))
                      (filter (stale desired) a_records))
          \<and> logs w' = logs w @ map (\<lambda>r. Info (''Delete stale managed A record ''
                                   @ lower (py_str (get r ''name'' (JStr [])))))
                                (filter (stale desired) a_records))
     \<and> (\<forall>r. stale desired r \<longleftrightarrow>
           sublist MANAGED_MARKER (py_str (get r ''comment'' (JStr [])))
           \<and> lower (py_str (get r ''name'' (JStr []))) |\<notin>| desired)"
proof -
  assume run: "prune_records cf desired dry zid a_records c w = (res, w')"
  note facts = prune_records_run [OF run]
  have one: "\<exists>k. calls w' = calls w @ (if dry then []
             else map (\<lambda>r. DeleteRecord zid (py_str (the (r ''id''))))
                    (take k (filter (stale desired) a_records)))"
    using facts by (cases dry) auto
  have two: "\<forall>c'. res = Inr c' \<longrightarrow>
          c' = c\<lparr>deletes := deletes c + int (length (filter (stale desired) a_records))\<rparr>
          \<and> calls w' = calls w @ (if dry then []
               else map (\<lambda>r. DeleteRecord zid (py_str (the (r ''id''))))
                      (filter (stale desired) a_records))
          \<and> logs w' = logs w @ map (\<lambda>r. Info (''Delete stale managed A record ''
                                   @ lower (py_str (get r ''name'' (JStr [])))))
                                (filter (stale desired) a_records)"
    using facts by (cases dry) auto
  have three: "\<forall>r. stale desired r \<longleftrightarrow>
           sublist MANAGED_MARKER (py_str (get r ''comment'' (JStr [])))
           \<and> lower (py_str (get r ''name'' (JStr []))) |\<notin>| desired"
    by (simp add: stale_def Let_def)
  from one two three show ?thesis by blast
qed

lemma stale_fixtures: "stale {||} rec_stale" "\<not> stale {||} rec_other"
  by (simp_all add: stale_def string_defs fixtures)

text \<open>The safe-pruning example: of a marked stale record and an unmarked one, with an
  empty desired set, only the first is deleted.\<close>

theorem prune_records_deletes_exactly_stale_witness:
  "calls (snd (prune_records test_cloudflare {||} False ''zone1'' [rec_stale, rec_other]
                 zero_summary fresh))
     = [DeleteRecord ''zone1'' ''r3'']
   \<and> fst (prune_records test_cloudflare {||} False ''zone1'' [rec_stale, rec_other]
                 zero_summary fresh)
     = Inr (zero_summary\<lparr>deletes := 1\<rparr>)"
proof -
  let ?run = "prune_records test_cloudflare {||} False ''zone1'' [rec_stale, rec_other]
                 zero_summary fresh"
  have ok: "fst ?run = Inr (zero_summary\<lparr>deletes := 1\<rparr>)"
    by (simp add: string_defs call_defs fixtures)
  have "?run = (Inr (zero_summary\<lparr>deletes := 1\<rparr>), snd ?run)"
    using ok by (metis prod.collapse)
  from prune_records_deletes_exactly_stale [OF this]
  have "calls (snd ?run) = calls fresh @ map (\<lambda>r. DeleteRecord ''zone1'' (py_str (the (r ''id''))))
                      (filter (stale {||}) [rec_stale, rec_other])"
    by simp
  also have "\<dots> = [DeleteRecord ''zone1'' ''r3'']"
    by (simp add: stale_fixtures) (simp add: fixtures)
  finally show ?thesis using ok by simp
qed

text \<open>
  Claim C8, as the code has it. For every input a dry run makes no create, update or
  delete call. Whenever the run with the dry run disabled returns a summary, and every
  listing which that run makes shows the engine what the corresponding listing of the
  dry run shows (in a lookup for a hostname the same records of that name, in a cleanup
  listing the same stale managed records), the dry run returns the identical summary.
\<close>

theorem dry_run_never_mutates:
  "filter mutating (calls (snd (sync_domains domains ip dp True cleanup cf w)))
     = filter mutating (calls w)
   \<and> (listings_agree domains ip dp cleanup cf w
        \<and> fst (sync_domains domains ip dp False cleanup cf w) = Inr summary
      \<longrightarrow> fst (sync_domains domains ip dp True cleanup cf w) = Inr summary)"
  using sync_domains_dry_calls sync_domains_agree by blast

lemma sorted_ab:
  "sorted_list_of_fset {|''a.example.com'', ''b.example.com''|} = [''a.example.com'', ''b.example.com'']"
  by code_simp

lemmas agree_defs = listings_agree_def seen_for_def stale_seen_def

lemma test_listings_agree:
  "listings_agree {|''new.example.com'', ''exists.example.com'', ''same.example.com''|}
     ''203.0.113.10'' False True test_cloudflare fresh"
  by (simp add: agree_defs sorted_three run_defs string_defs call_defs fixtures)

lemma store_listings_agree:
  "listings_agree {|''new.example.com''|} ''203.0.113.10'' False True
     (store_cloudflare [test_zone]) (store_world [])"
  by (simp add: agree_defs sorted_one run_defs string_defs call_defs fixtures)

lemma store_run:
  "fst (sync_domains {|''new.example.com''|} ''203.0.113.10'' False False True
          (store_cloudflare [test_zone]) (store_world []))
     = Inr \<lparr>creates = 1, updates = 0, noops = 0, deletes = 0, skipped = 0\<rparr>"
  by (simp add: sorted_one run_defs string_defs call_defs fixtures)

text \<open>The scenario of tests/test\_sync\_engine.py on its double, whose listings never
  change; and a create followed by a cleanup on the client that keeps what it creates,
  where the new record shows in the cleanup listing of the real run only and is not
  stale.\<close>

theorem dry_run_never_mutates_witness:
  "fst (sync_domains {|''new.example.com'', ''exists.example.com'', ''same.example.com''|}
          ''203.0.113.10'' False True True test_cloudflare fresh)
     = Inr \<lparr>creates = 1, updates = 1, noops = 1, deletes = 1, skipped = 0\<rparr>
   \<and> filter mutating (calls (snd (sync_domains
          {|''new.example.com'', ''exists.example.com'', ''same.example.com''|}
          ''203.0.113.10'' False True True test_cloudflare fresh))) = []
   \<and> fst (sync_domains {|''new.example.com''|} ''203.0.113.10'' False True True
          (store_cloudflare [test_zone]) (store_world []))
     = Inr \<lparr>creates = 1, updates = 0, noops = 0, deletes = 0, skipped = 0\<rparr>"
proof -
  have c: "filter mutating (calls fresh) = []" by (simp add: fixtures)
  from dry_run_never_mutates [where domains = "{|''new.example.com'', ''exists.example.com'', ''same.example.com''|}"
      and ip = "''203.0.113.10''" and dp = False and cleanup = True and cf = test_cloudflare
      and w = fresh and summary = "\<lparr>creates = 1, updates = 1, noops = 1, deletes = 1, skipped = 0\<rparr>"]
    test_listings_agree test_run c
  have one: "fst (sync_domains {|''new.example.com'', ''exists.example.com'', ''same.example.com''|}
          ''203.0.113.10'' False True True test_cloudflare fresh)
     = Inr \<lparr>creates = 1, updates = 1, noops = 1, deletes = 1, skipped = 0\<rparr>
   \<and> filter mutating (calls (snd (sync_domains
          {|''new.example.com'', ''exists.example.com'', ''same.example.com''|}
          ''203.0.113.10'' False True True test_cloudflare fresh))) = []"
    by simp
  from dry_run_never_mutates [where domains = "{|''new.example.com''|}"
      and ip = "''203.0.113.10''" and dp = False and cleanup = True
      and cf = "store_cloudflare [test_zone]" and w = "store_world []"
      and summary = "\<lparr>creates = 1, updates = 0, noops = 0, deletes = 0, skipped = 0\<rparr>"]
    store_listings_agree store_run
  have two: "fst (sync_domains {|''new.example.com''|} ''203.0.113.10'' False True True
          (store_cloudflare [test_zone]) (store_world []))
     = Inr \<lparr>creates = 1, updates = 0, noops = 0, deletes = 0, skipped = 0\<rparr>"
    by simp
  from one two show ?thesis by simp
qed

text \<open>
  Claim C8 as it was stated fails in three ways. A client that may list but not create:
  the dry run returns a summary with one create, the run itself raises the provider's
  error and returns none. A zone listed twice on the client that keeps its records: the
  run deletes the stale record under the first listing and finds it gone under the
  second, the dry run counts it twice. A client whose lookups change once something was
  created: the run creates one record and leaves the other hostname alone, the dry run
  counts two creates.
\<close>

theorem dry_run_counterexample:
  "fst (sync_domains {|''new.example.com''|} ''203.0.113.10'' False True False
          read_only_cloudflare fresh)
     = Inr \<lparr>creates = 1, updates = 0, noops = 0, deletes = 0, skipped = 0\<rparr>
   \<and> fst (sync_domains {|''new.example.com''|} ''203.0.113.10'' False False False
          read_only_cloudflare fresh)
     = Inl (CloudflareAPIError ''403 Forbidden'')
   \<and> fst (sync_domains {|''new.example.com''|} ''203.0.113.10'' False True True
          (store_cloudflare [test_zone, test_zone]) (store_world [rec_stale]))
     = Inr \<lparr>creates = 1, updates = 0, noops = 0, deletes = 2, skipped = 0\<rparr>
   \<and> fst (sync_domains {|''new.example.com''|} ''203.0.113.10'' False False True
          (store_cloudflare [test_zone, test_zone]) (store_world [rec_stale]))
     = Inr \<lparr>creates = 1, updates = 0, noops = 0, deletes = 1, skipped = 0\<rparr>
   \<and> fst (sync_domains {|''a.example.com'', ''b.example.com''|} ''203.0.113.10'' False True False
          wildcard_cloudflare \<lparr>remote = False, calls = [], logs = []\<rparr>)
     = Inr \<lparr>creates = 2, updates = 0, noops = 0, deletes = 0, skipped = 0\<rparr>
   \<and> fst (sync_domains {|''a.example.com'', ''b.example.com''|} ''203.0.113.10'' False False False
          wildcard_cloudflare \<lparr>remote = False, calls = [], logs = []\<rparr>)
     = Inr \<lparr>creates = 1, updates = 0, noops = 1, deletes = 0, skipped = 0\<rparr>"
  by (simp add: sorted_one sorted_ab run_defs string_defs call_defs fixtures)

section \<open>The public-IP resolver\<close>

lemma try_source_answers:
  "fst (try_source g v t src w) = Inr a \<longleftrightarrow> answers g v t src (session w) = Some a"
  by (auto simp: try_source_def answers_def Let_def split: prod.splits sum.splits option.splits)

lemma try_source_fails:
  "(\<exists>e. fst (try_source g v t src w) = Inl e) \<longleftrightarrow> answers g v t src (session w) = None"
  by (auto simp: try_source_def answers_def Let_def split: prod.splits sum.splits option.splits)

lemma try_source_world:
  "session (snd (try_source g v t src w)) = snd (g src t (session w))
   \<and> requested (snd (try_source g v t src w)) = requested w @ [src]"
  by (auto simp: try_source_def Let_def split: prod.splits sum.splits option.splits)

lemma resolve_loop_first_answer:
  "(case first_answer g v t sources (session w) of
      Some (k, a) \<Rightarrow>
        fst (resolve_loop g v t sources errors w) = Inr a
        \<and> requested (snd (resolve_loop g v t sources errors w)) = requested w @ take (Suc k) sources
    | None \<Rightarrow>
        (\<exists>m. fst (resolve_loop g v t sources errors w) = Inl (RuntimeError m))
        \<and> requested (snd (resolve_loop g v t sources errors w)) = requested w @ sources)"
proof (induction sources arbitrary: errors w)
  case Nil
  show ?case by simp
next
  case (Cons src rest)
  obtain r w1 where ts: "try_source g v t src w = (r, w1)" by (cases "try_source g v t src w") auto
  from try_source_world[of g v t src w] ts
  have w1: "session w1 = snd (g src t (session w))" "requested w1 = requested w @ [src]" by simp_all
  show ?case
  proof (cases r)
    case (Inr a)
    with ts try_source_answers[of g v t src w a] have "answers g v t src (session w) = Some a" by simp
    with ts Inr w1 show ?thesis by simp
  next
    case (Inl e)
    with ts try_source_fails[of g v t src w] have none: "answers g v t src (session w) = None" by auto
    let ?w2 = "w1\<lparr>warnings := warnings w1
               @ [Warning (''Failed resolving IP from '' @ src @ '': '' @ exn_str e)]\<rparr>"
    let ?errs = "errors @ [src @ '': '' @ exn_str e]"
    have step: "resolve_loop g v t (src # rest) errors w = resolve_loop g v t rest ?errs ?w2"
      using ts Inl by simp
    have s2: "session ?w2 = snd (g src t (session w))" "requested ?w2 = requested w @ [src]"
      using w1 by simp_all
    from Cons.IH[where w = ?w2 and errors = ?errs] show ?thesis
      unfolding step using none s2 by (auto split: option.splits)
  qed
qed

lemma all_less_Suc_shift: "(\<forall>j<Suc k. P j) \<longleftrightarrow> P 0 \<and> (\<forall>j<k. P (Suc j))"
  by (metis less_Suc_eq_0_disj)

lemma first_answer_Some_iff:
  "first_answer g v t sources s = Some (k, a) \<longleftrightarrow>
     k < length sources
     \<and> answers g v t (sources ! k) (session_after g t (take k sources) s) = Some a
     \<and> (\<forall>j<k. answers g v t (sources ! j) (session_after g t (take j sources) s) = None)"
proof (induction sources arbitrary: k s)
  case Nil
  show ?case by simp
next
  case (Cons src rest)
  show ?case
  proof (cases "answers g v t src s")
    case (Some b)
    show ?thesis
    proof (cases k)
      case 0
      with Some show ?thesis by auto
    next
      case (Suc k')
      with Some show ?thesis by (auto simp: all_less_Suc_shift)
    qed
  next
    case None
    show ?thesis
    proof (cases k)
      case 0
      with None show ?thesis by auto
    next
      case (Suc k')
      with None Cons.IH[where k = k' and s = "snd (g src t s)"] show ?thesis
        by (auto simp: all_less_Suc_shift)
    qed
  qed
qed

lemma first_answer_None_iff:
  "first_answer g v t sources s = None \<longleftrightarrow>
     (\<forall>j<length sources. answers g v t (sources ! j) (session_after g t (take j sources) s) = None)"
proof (induction sources arbitrary: s)
  case Nil
  show ?case by simp
next
  case (Cons src rest)
  show ?case
    using Cons.IH[where s = "snd (g src t s)"]
    by (cases "answers g v t src s") (auto simp: all_less_Suc_shift)
qed

lemmas test_session_defs = answers_def test_session_get_def test_ipv4_address_def strip_def
  isspace_def Let_def test_net_def

text \<open>
  Claim C9. The resolver asks the given sources in order, each in the session state the
  earlier ones left. A source answers when the request returns a response,
  \<^verbatim>\<open>raise_for_status\<close> raises nothing and the trimmed body is an IPv4 address. The
  resolver returns an address if and only if it is the trimmed body of the first source
  that answers; it raises, and then a \<^verbatim>\<open>RuntimeError\<close>, if and only if no source answers;
  it contacts the sources up to the first that answers and none after it, and all of
  them when it raises.
\<close>

theorem resolve_public_ipv4_first_answer:
  "(fst (resolve_public_ipv4 g v sources t w) = Inr a \<longleftrightarrow>
      (\<exists>k<length sources.
          answers g v t (sources ! k) (session_after g t (take k sources) (session w)) = Some a
          \<and> (\<forall>j<k. answers g v t (sources ! j) (session_after g t (take j sources) (session w))
                    = None)))
   \<and> ((\<exists>e. fst (resolve_public_ipv4 g v sources t w) = Inl e) \<longleftrightarrow>
      (\<forall>j<length sources.
          answers g v t (sources ! j) (session_after g t (take j sources) (session w)) = None))
   \<and> (\<forall>e. fst (resolve_public_ipv4 g v sources t w) = Inl e \<longrightarrow> (\<exists>m. e = RuntimeError m))
   \<and> (\<forall>k<length sources.
          answers g v t (sources ! k) (session_after g t (take k sources) (session w)) \<noteq> None
          \<and> (\<forall>j<k. answers g v t (sources ! j) (session_after g t (take j sources) (session w))
                    = None)
        \<longrightarrow> requested (snd (resolve_public_ipv4 g v sources t w))
              = requested w @ take (Suc k) sources)
   \<and> ((\<forall>j<length sources.
          answers g v t (sources ! j) (session_after g t (take j sources) (session w)) = None)
        \<longrightarrow> requested (snd (resolve_public_ipv4 g v sources t w)) = requested w @ sources)"
proof (cases "first_answer g v t sources (session w)")
  case None
  from resolve_loop_first_answer[where g = g and v = v and t = t and sources = sources and w = w
      and errors = "[]"] None
  obtain m where run: "fst (resolve_public_ipv4 g v sources t w) = Inl (RuntimeError m)"
    "requested (snd (resolve_public_ipv4 g v sources t w)) = requested w @ sources"
    by (auto simp: resolve_public_ipv4_def)
  from None have all: "\<forall>j<length sources.
      answers g v t (sources ! j) (session_after g t (take j sources) (session w)) = None"
    by (simp add: first_answer_None_iff)
  from run all show ?thesis by auto
next
  case (Some p)
  obtain k b where p: "p = (k, b)" by (cases p)
  from resolve_loop_first_answer[where g = g and v = v and t = t and sources = sources and w = w
      and errors = "[]"] Some p
  have run: "fst (resolve_public_ipv4 g v sources t w) = Inr b"
    "requested (snd (resolve_public_ipv4 g v sources t w)) = requested w @ take (Suc k) sources"
    by (auto simp: resolve_public_ipv4_def)
  from Some p have k: "k < length sources"
    "answers g v t (sources ! k) (session_after g t (take k sources) (session w)) = Some b"
    "\<forall>j<k. answers g v t (sources ! j) (session_after g t (take j sources) (session w)) = None"
    by (simp_all add: first_answer_Some_iff)
  have uniq: "\<And>k' a'. k' < length sources \<Longrightarrow>
      answers g v t (sources ! k') (session_after g t (take k' sources) (session w)) = Some a' \<Longrightarrow>
      (\<forall>j<k'. answers g v t (sources ! j) (session_after g t (take j sources) (session w)) = None)
      \<Longrightarrow> k' = k \<and> a' = b"
  proof -
    fix k' a'
    assume "k' < length sources"
      "answers g v t (sources ! k') (session_after g t (take k' sources) (session w)) = Some a'"
      "\<forall>j<k'. answers g v t (sources ! j) (session_after g t (take j sources) (session w)) = None"
    then have "first_answer g v t sources (session w) = Some (k', a')"
      by (simp add: first_answer_Some_iff)
    with Some p show "k' = k \<and> a' = b" by simp
  qed
  have c1: "fst (resolve_public_ipv4 g v sources t w) = Inr a \<longleftrightarrow>
      (\<exists>k<length sources.
          answers g v t (sources ! k) (session_after g t (take k sources) (session w)) = Some a
          \<and> (\<forall>j<k. answers g v t (sources ! j) (session_after g t (take j sources) (session w))
                    = None))"
  proof
    assume "fst (resolve_public_ipv4 g v sources t w) = Inr a"
    with run k show "\<exists>k<length sources.
          answers g v t (sources ! k) (session_after g t (take k sources) (session w)) = Some a
          \<and> (\<forall>j<k. answers g v t (sources ! j) (session_after g t (take j sources) (session w))
                    = None)" by auto
  next
    assume "\<exists>k<length sources.
          answers g v t (sources ! k) (session_after g t (take k sources) (session w)) = Some a
          \<and> (\<forall>j<k. answers g v t (sources ! j) (session_after g t (take j sources) (session w))
                    = None)"
    with uniq run show "fst (resolve_public_ipv4 g v sources t w) = Inr a" by blast
  qed
  have c2: "(\<exists>e. fst (resolve_public_ipv4 g v sources t w) = Inl e) \<longleftrightarrow>
      (\<forall>j<length sources.
          answers g v t (sources ! j) (session_after g t (take j sources) (session w)) = None)"
    using run k by auto
  have c3: "\<forall>e. fst (resolve_public_ipv4 g v sources t w) = Inl e \<longrightarrow> (\<exists>m. e = RuntimeError m)"
    using run by simp
  have c4: "\<forall>k<length sources.
          answers g v t (sources ! k) (session_after g t (take k sources) (session w)) \<noteq> None
          \<and> (\<forall>j<k. answers g v t (sources ! j) (session_after g t (take j sources) (session w))
                    = None)
        \<longrightarrow> requested (snd (resolve_public_ipv4 g v sources t w))
              = requested w @ take (Suc k) sources"
  proof (intro allI impI)
    fix k' assume "k' < length sources"
      "answers g v t (sources ! k') (session_after g t (take k' sources) (session w)) \<noteq> None
          \<and> (\<forall>j<k'. answers g v t (sources ! j) (session_after g t (take j sources) (session w))
                    = None)"
    with uniq have "k' = k" by blast
    with run show "requested (snd (resolve_public_ipv4 g v sources t w))
              = requested w @ take (Suc k') sources" by simp
  qed
  have c5: "(\<forall>j<length sources.
          answers g v t (sources ! j) (session_after g t (take j sources) (session w)) = None)
        \<longrightarrow> requested (snd (resolve_public_ipv4 g v sources t w)) = requested w @ sources"
    using k by auto
  from c1 c2 c3 c4 c5 show ?thesis by (intro conjI)
qed

text \<open>The session of tests/test\_ip\_resolver.py: the first source fails, the second
  returns no address, the third answers.\<close>

theorem resolve_public_ipv4_first_answer_witness:
  "fst (resolve_public_ipv4 test_session_get test_ipv4_address [''s1'', ''s2'', ''s3''] 5 test_net)
     = Inr ''203.0.113.10''"
proof -
  let ?ans = "\<lambda>j. answers test_session_get test_ipv4_address 5 ([''s1'', ''s2'', ''s3''] ! j)
      (session_after test_session_get 5 (take j [''s1'', ''s2'', ''s3'']) (session test_net))"
  have two: "?ans 2 = Some ''203.0.113.10''"
    by (simp add: test_session_defs)
  have one: "?ans 1 = None" by (simp add: test_session_defs)
  have zero: "?ans 0 = None" by (simp add: test_session_defs)
  have "\<forall>j<2. ?ans j = None"
  proof (intro allI impI)
    fix j :: nat assume "j < 2"
    then have "j = 0 \<or> j = 1" by auto
    with zero one show "?ans j = None" by auto
  qed
  with two have "\<exists>k<length [''s1'', ''s2'', ''s3'']. ?ans k = Some ''203.0.113.10''
      \<and> (\<forall>j<k. ?ans j = None)"
    by (intro exI[of _ 2]) simp
  with resolve_public_ipv4_first_answer [of test_session_get test_ipv4_address
      "[''s1'', ''s2'', ''s3'']" 5 test_net "''203.0.113.10''", THEN conjunct1]
  show ?thesis by blast
qed

end
